theory Spec2Isabelle
  imports Main "HOL-Library.Sublist"
begin

section \<open>Location model (types.ts)\<close>

text \<open>
  Line and column numbers are JavaScript numbers that hold integers: tree-sitter
  reports rows and columns as unsigned 32-bit values, far inside the range in which
  double arithmetic on integers is exact. They are modelled as \<open>int\<close>.

  The TypeScript interfaces \<open>Definition\<close> and \<open>Reference\<close> both extend \<open>Location\<close>;
  \<open>Definition\<close> has the fields of \<open>Reference\<close> plus \<open>kind\<close>, so the record
  \<open>symbol_definition\<close> extends \<open>reference\<close>. The fields \<open>file\<close>, \<open>range\<close>, \<open>start\<close> and \<open>end\<close>
  are written \<open>file_of\<close>, \<open>range_of\<close>, \<open>start_pos\<close> and \<open>end_pos\<close>.
\<close>

record position =
  line :: int
  column :: int

record index_range =
  start_pos :: position
  end_pos :: position

record location =
  file_of :: string
  range_of :: index_range

datatype definition_kind =
  KClass | KInterface | KEnum | KMethod | KProperty | KConstructor | KTrigger | KUnknown

record reference = location +
  name :: string

record symbol_definition = reference +
  kind :: definition_kind

text \<open>The protocol's types (vscode-languageserver): 0-based positions, URI locations.\<close>

record lsp_position =
  lsp_line :: int
  lsp_character :: int

record lsp_range =
  lsp_start :: lsp_position
  lsp_end :: lsp_position

record lsp_location =
  lsp_uri :: string
  lsp_range_of :: lsp_range

text \<open>A tree-sitter \<open>Point\<close>: 0-based row and column.\<close>

record point =
  row :: int
  point_column :: int

datatype js_error = JsError string

section \<open>Coordinate translation (utils.ts)\<close>

definition pointToPosition :: "point \<Rightarrow> position" where
  "pointToPosition pt = \<lparr>line = row pt + 1, column = point_column pt + 1\<rparr>"

text \<open>
  \<open>LspPosition.create\<close>, \<open>LspRange.create\<close> and \<open>LspLocation.create\<close> are functions
  of the protocol library. \<open>LspPosition.create\<close> returns the object of its two
  arguments (it replaces \<open>Number.MAX_VALUE\<close> only, which is not one of the integers
  modelled), and \<open>LspLocation.create\<close> the object of its two arguments.
  \<open>LspRange.create\<close>, called with two positions, returns the range when both pass
  \<open>Position.is\<close>, that is when the line and the character of each are numbers from 0
  to 2147483647 (\<open>Is.uinteger\<close>), and throws otherwise; the message of the error is
  written without the arguments it lists.
\<close>

definition LspPosition_create :: "int \<Rightarrow> int \<Rightarrow> lsp_position" where
  "LspPosition_create l c = \<lparr>lsp_line = l, lsp_character = c\<rparr>"

definition Is_uinteger :: "int \<Rightarrow> bool" where
  "Is_uinteger v \<longleftrightarrow> 0 \<le> v \<and> v \<le> 2147483647"

definition LspPosition_is :: "lsp_position \<Rightarrow> bool" where
  "LspPosition_is p \<longleftrightarrow> Is_uinteger (lsp_line p) \<and> Is_uinteger (lsp_character p)"

definition LspRange_create :: "lsp_position \<Rightarrow> lsp_position \<Rightarrow> js_error + lsp_range" where
  "LspRange_create one two =
     (if LspPosition_is one \<and> LspPosition_is two
      then Inr \<lparr>lsp_start = one, lsp_end = two\<rparr>
      else Inl (JsError ''Range#create called with invalid arguments''))"



definition LspLocation_create :: "string \<Rightarrow> lsp_range \<Rightarrow> lsp_location" where
  "LspLocation_create u r = \<lparr>lsp_uri = u, lsp_range_of = r\<rparr>"

section \<open>The runtime the code calls\<close>

text \<open>
  The functions of Node.js and of the libraries that the code calls are parameters of
  the model. \<open>path_relative from to\<close> is \<open>path.relative\<close> (total: both arguments are
  absolute paths wherever the code calls it); \<open>path_resolve\<close> is \<open>path.resolve\<close>,
  which asks for the working directory and may throw; \<open>glob root\<close> is the call of
  fast-glob with the fixed patterns and \<open>cwd\<close> the root; \<open>fileURLToPath\<close> may throw.
  A call that throws or a promise that rejects is \<open>Inl\<close> of the error.
\<close>

record node_env =
  path_relative :: "string \<Rightarrow> string \<Rightarrow> string"
  path_resolve :: "string \<Rightarrow> string \<Rightarrow> js_error + string"
  glob :: "string \<Rightarrow> js_error + string list"
  fileURLToPath :: "string \<Rightarrow> js_error + string"
  platform_win32 :: bool

text \<open>
  \<open>uriToPath\<close>: \<open>undefined\<close> is \<open>None\<close>.
\<close>

definition uriToPath :: "'e node_env_scheme \<Rightarrow> string \<Rightarrow> string option" where
  "uriToPath env uri =
     (if \<not> prefix ''file://'' uri then None
      else (case fileURLToPath env uri of Inr p \<Rightarrow> Some p | Inl e \<Rightarrow> None))"

section \<open>Symbol extraction (parser.ts)\<close>

text \<open>
  A tree-sitter syntax node: its offsets in the text, its start and end points, and
  the child in its field \<open>name\<close> (\<open>childForFieldName("name")\<close>).
\<close>

datatype node =
  Node (startIndex: nat) (endIndex: nat) (startPosition: point) (endPosition: point)
    (nameField: "node option")

text \<open>\<open>String.prototype.substring\<close>: both indices are clamped to the length, then ordered.\<close>

definition substring :: "string \<Rightarrow> nat \<Rightarrow> nat \<Rightarrow> string" where
  "substring str a b =
     (let a' = min a (length str); b' = min b (length str)
      in take (max a' b' - min a' b') (drop (min a' b') str))"

definition getNodeText :: "node \<Rightarrow> string \<Rightarrow> string" where
  "getNodeText nd sourceCode = substring sourceCode (startIndex nd) (endIndex nd)"

definition getNodeRange :: "node \<Rightarrow> index_range" where
  "getNodeRange nd =
     \<lparr>start_pos = pointToPosition (startPosition nd),
      end_pos = pointToPosition (endPosition nd)\<rparr>"

text \<open>
  A query match is its list of captures, each a capture name and a node. The parser and
  the query engine are parameters: \<open>readFile\<close> is \<open>fs.readFile\<close>, \<open>parserReady\<close> says
  that the module's \<open>parser\<close> is set, \<open>parse\<close> is \<open>parser.parse\<close> followed by
  \<open>rootNode\<close>, and \<open>queryMatches q t\<close> builds the query \<open>q\<close> and runs it on \<open>t\<close>.
\<close>

type_synonym capture = "string \<times> node"
type_synonym query_match = "capture list"

record 'tree parser_env = node_env +
  readFile :: "string \<Rightarrow> js_error + string"
  parserReady :: bool
  parse :: "string \<Rightarrow> js_error + 'tree"
  queryMatches :: "string \<Rightarrow> 'tree \<Rightarrow> js_error + query_match list"

text \<open>The entries of \<open>definitionQueries\<close>, in the order of the object literal.\<close>

definition definitionQueries :: "(definition_kind \<times> string) list" where
  "definitionQueries =
     [(KClass, ''(class_declaration name: (identifier) @name) @def''),
      (KInterface, ''(interface_declaration name: (identifier) @name) @def''),
      (KEnum, ''(enum_declaration name: (identifier) @name) @def''),
      (KMethod, ''(method_declaration name: (identifier) @name) @def''),
      (KConstructor, ''(constructor_declaration name: (identifier) @name) @def''),
      (KProperty,
       ''(field_declaration declarator: (variable_declarator name: (identifier) @name)) @def''),
      (KTrigger, ''(trigger_declaration name: (identifier) @name) @def'')]"

text \<open>The reference query, without its line breaks and its comment line.\<close>

definition referenceQuery :: string where
  "referenceQuery = ''[ (type_identifier) @ref_name (identifier) @maybe_ref_name ]''"

text \<open>\<open>match.captures.find((c) => c.name === nm)?.node\<close>\<close>

definition findCapture :: "string \<Rightarrow> query_match \<Rightarrow> node option" where
  "findCapture nm captures = map_option snd (find (\<lambda>c. fst c = nm) captures)"

text \<open>
  The three accumulators of \<open>parseFile\<close>. The keys of \<open>foundDefRanges\<close> are the
  strings \<open>line:column\<close>, modelled as the pairs they print.
\<close>

record parse_acc =
  acc_definitions :: "symbol_definition list"
  acc_references :: "reference list"
  foundDefRanges :: "(int \<times> int) set"

definition empty_acc :: parse_acc where
  "empty_acc = \<lparr>acc_definitions = [], acc_references = [], foundDefRanges = {}\<rparr>"

definition pushDefinition ::
  "definition_kind \<Rightarrow> string \<Rightarrow> string \<Rightarrow> node \<Rightarrow> parse_acc \<Rightarrow> parse_acc" where
  "pushDefinition k relativePath sourceCode nameNode acc =
     (let r = getNodeRange nameNode
      in acc\<lparr>acc_definitions := acc_definitions acc @
                [\<lparr>file_of = relativePath, range_of = r,
                  name = getNodeText nameNode sourceCode, kind = k\<rparr>],
              foundDefRanges :=
                insert (line (start_pos r), column (start_pos r)) (foundDefRanges acc)\<rparr>)"

text \<open>The body of the loop over the matches of one definition query.\<close>

definition addDefinitionMatch ::
  "definition_kind \<Rightarrow> string \<Rightarrow> string \<Rightarrow> query_match \<Rightarrow> parse_acc \<Rightarrow> parse_acc" where
  "addDefinitionMatch k relativePath sourceCode m acc =
     (case (findCapture ''name'' m, findCapture ''def'' m) of
        (Some nameNode, Some defNode) \<Rightarrow>
          pushDefinition k relativePath sourceCode nameNode acc
      | (None, Some defNode) \<Rightarrow>
          (if k = KConstructor
           then (case nameField defNode of
                   Some constructorNameNode \<Rightarrow>
                     pushDefinition KConstructor relativePath sourceCode constructorNameNode acc
                 | None \<Rightarrow> acc)
           else acc)
      | (_, None) \<Rightarrow> acc)"

text \<open>
  One turn of the loop over \<open>definitionQueries\<close>: a query that throws is caught inside
  the turn (a warning is printed) and the loop goes on with the next kind.
\<close>

definition runDefinitionQuery ::
  "('tree, 'e) parser_env_scheme \<Rightarrow> string \<Rightarrow> string \<Rightarrow> 'tree
     \<Rightarrow> definition_kind \<times> string \<Rightarrow> parse_acc \<Rightarrow> parse_acc" where
  "runDefinitionQuery env relativePath sourceCode tree kq acc =
     (case queryMatches env (snd kq) tree of
        Inr matches \<Rightarrow> fold (addDefinitionMatch (fst kq) relativePath sourceCode) matches acc
      | Inl queryError \<Rightarrow> acc)"

definition addReferenceMatch ::
  "string \<Rightarrow> string \<Rightarrow> query_match \<Rightarrow> parse_acc \<Rightarrow> parse_acc" where
  "addReferenceMatch relativePath sourceCode m acc =
     (case (case findCapture ''ref_name'' m of
              Some nd \<Rightarrow> Some nd
            | None \<Rightarrow> findCapture ''maybe_ref_name'' m) of
        Some refNode \<Rightarrow>
          (let r = getNodeRange refNode
           in if (line (start_pos r), column (start_pos r)) \<notin> foundDefRanges acc
              then acc\<lparr>acc_references := acc_references acc @
                     [\<lparr>file_of = relativePath, range_of = r,
                       name = getNodeText refNode sourceCode\<rparr>]\<rparr>
              else acc)
      | None \<Rightarrow> acc)"

text \<open>
  The outer \<open>try\<close> block. It can throw at \<open>readFile\<close>, at the test of \<open>parser\<close> and at
  \<open>parse\<close>, all before the first \<open>push\<close>; the queries after them are caught one by one.
\<close>

definition parseFile_try ::
  "('tree, 'e) parser_env_scheme \<Rightarrow> string \<Rightarrow> string \<Rightarrow> js_error + parse_acc" where
  "parseFile_try env filePath relativePath =
     (case readFile env filePath of
        Inl e \<Rightarrow> Inl e
      | Inr sourceCode \<Rightarrow>
          (if \<not> parserReady env
           then Inl (JsError ''Tree-sitter parser or sfapex language not initialized'')
           else (case parse env sourceCode of
                   Inl e \<Rightarrow> Inl e
                 | Inr tree \<Rightarrow>
                     (let acc1 = fold (runDefinitionQuery env relativePath sourceCode tree)
                                   definitionQueries empty_acc;
                          acc2 = (case queryMatches env referenceQuery tree of
                                    Inr matches \<Rightarrow>
                                      fold (addReferenceMatch relativePath sourceCode) matches acc1
                                  | Inl queryError \<Rightarrow> acc1)
                      in Inr acc2))))"

text \<open>
  \<open>parseFile\<close>: the promise it returns settles with \<open>Inr\<close> of the two lists or with
  \<open>Inl\<close> of an error. The outer \<open>catch\<close> prints the error and falls through to the
  \<open>return\<close>. What the module prints on the console is not modelled.
\<close>

type_synonym extraction = "js_error + (symbol_definition list \<times> reference list)"

definition parseFile ::
  "('tree, 'e) parser_env_scheme \<Rightarrow> string \<Rightarrow> string \<Rightarrow> extraction" where
  "parseFile env filePath projectRoot =
     (let relativePath = path_relative env projectRoot filePath;
          acc = (case parseFile_try env filePath relativePath of
                   Inr acc \<Rightarrow> acc
                 | Inl error \<Rightarrow> empty_acc)
      in Inr (acc_definitions acc, acc_references acc))"

section \<open>The index (indexerService.ts)\<close>

text \<open>
  The two \<open>Map\<close>s from a symbol name to its entries are maps to lists, the \<open>Set\<close> of
  indexed files is a set. \<open>projectRoot\<close> is \<open>None\<close> while it is \<open>undefined\<close>.
  \<open>console\<close> collects what the lifecycle methods of the service (\<open>runFullIndex\<close>,
  \<open>indexFile\<close>, \<open>handleFileSave\<close>) print, one entry for each call of \<open>console\<close>
  in them, in order; the durations and the sizes of the maps that the last two
  messages of a rebuild print are left out. The progress notifications
  (\<open>setProgress\<close>) go to the client and touch nothing of the service; they are not
  modelled.
\<close>

type_synonym 'a buckets = "string \<rightharpoonup> 'a list"

datatype console_entry =
    ErrorRootNotSet
  | WarnAlreadyIndexing
  | LogStartingFullIndex string
  | ErrorFindingFiles js_error
  | LogNoFilesFound
  | LogFoundFiles nat
  | LogIndexingComplete
  | LogIndexedSummary
  | WarnCannotIndexFile string
  | ErrorFailedToIndexFile string js_error
  | LogFileSaved string

record indexer_state =
  definitions :: "symbol_definition buckets"
  references :: "reference buckets"
  filesIndexed :: "string set"
  projectRoot :: "string option"
  isIndexing :: bool
  console :: "console_entry list"

text \<open>The field initialisers of the class.\<close>

definition initial_state :: indexer_state where
  "initial_state =
     \<lparr>definitions = Map.empty, references = Map.empty, filesIndexed = {},
      projectRoot = None, isIndexing = False, console = []\<rparr>"

text \<open>
  The test \<open>!this.projectRoot\<close> is true for \<open>undefined\<close> and for the empty string.
  \<open>truthyRoot\<close> is the root when the test is false.
\<close>

definition truthyRoot :: "indexer_state \<Rightarrow> string option" where
  "truthyRoot s =
     (case projectRoot s of
        None \<Rightarrow> None
      | Some root \<Rightarrow> if root = [] then None else Some root)"

definition say :: "console_entry \<Rightarrow> indexer_state \<Rightarrow> indexer_state" where
  "say e s = s\<lparr>console := console s @ [e]\<rparr>"

subsection \<open>Lookups\<close>

definition toLspRange :: "index_range \<Rightarrow> js_error + lsp_range" where
  "toLspRange r =
     LspRange_create
       (LspPosition_create (line (start_pos r) - 1) (column (start_pos r) - 1))
       (LspPosition_create (line (end_pos r) - 1) (column (end_pos r) - 1))"

text \<open>
  \<open>toLspLocation\<close>: \<open>undefined\<close> is \<open>None\<close>. The calls that can throw in the \<open>try\<close>
  block are \<open>path.resolve\<close> and, in the last statement, \<open>toLspRange\<close>; the \<open>catch\<close>
  returns \<open>undefined\<close>. The character \<open>CHR 0x5C\<close> is the backslash. What the
  lookups print is not modelled.
\<close>

definition toLspLocation ::
  "'e node_env_scheme \<Rightarrow> indexer_state \<Rightarrow> 'a location_scheme \<Rightarrow> string
     \<Rightarrow> lsp_location option" where
  "toLspLocation env s loc workspaceUri =
     (case truthyRoot s of
        None \<Rightarrow> None
      | Some root \<Rightarrow>
          (case path_resolve env root (file_of loc) of
             Inl e \<Rightarrow> None
           | Inr absolutePath \<Rightarrow>
               (let slashed = map (\<lambda>c. if c = CHR 0x5C then CHR ''/'' else c) absolutePath;
                    fileUri = ''file://'' @ slashed;
                    fileUri' = (if platform_win32 env \<and> prefix ''file://'' fileUri
                                   \<and> \<not> prefix ''file:///'' fileUri
                                then ''file:///'' @ slashed else fileUri)
                in (case toLspRange (range_of loc) of
                      Inl e \<Rightarrow> None
                    | Inr lspRange \<Rightarrow> Some (LspLocation_create fileUri' lspRange)))))"

text \<open>The \<open>forEach\<close> that pushes every location that is not \<open>undefined\<close>.\<close>

definition collectLocations ::
  "'e node_env_scheme \<Rightarrow> indexer_state \<Rightarrow> string \<Rightarrow> 'a location_scheme list
     \<Rightarrow> lsp_location list" where
  "collectLocations env s workspaceUri entries =
     fold (\<lambda>d locations.
             (case toLspLocation env s d workspaceUri of
                Some lspLoc \<Rightarrow> locations @ [lspLoc]
              | None \<Rightarrow> locations))
       entries []"

definition findDefinitions ::
  "'e node_env_scheme \<Rightarrow> indexer_state \<Rightarrow> string \<Rightarrow> string \<Rightarrow> lsp_location list" where
  "findDefinitions env s symbol workspaceUri =
     (let defs = (case definitions s symbol of Some ds \<Rightarrow> ds | None \<Rightarrow> [])
      in collectLocations env s workspaceUri defs)"

definition findReferences ::
  "'e node_env_scheme \<Rightarrow> indexer_state \<Rightarrow> string \<Rightarrow> string \<Rightarrow> lsp_location list" where
  "findReferences env s symbol workspaceUri =
     (let refs = (case references s symbol of Some rs \<Rightarrow> rs | None \<Rightarrow> [])
      in collectLocations env s workspaceUri refs)"

subsection \<open>Updating one file\<close>

text \<open>
  \<open>removeDataForFile\<close> visits every key of a map once and deletes or replaces only
  the entry of the key it is visiting, so the loop is a function of each bucket alone.
  The code for the definitions and for the references is the same; the local
  \<open>changed\<close> is never read.
\<close>

definition removeFromBuckets ::
  "string \<Rightarrow> ('a reference_scheme) buckets \<Rightarrow> ('a reference_scheme) buckets" where
  "removeFromBuckets relativePath m =
     (\<lambda>key. case m key of
        None \<Rightarrow> None
      | Some defs \<Rightarrow>
          (let filtered = filter (\<lambda>d. file_of d \<noteq> relativePath) defs
           in if length filtered = 0 then None
              else if length filtered < length defs then Some filtered
              else Some defs))"

definition removeDataForFile :: "string \<Rightarrow> indexer_state \<Rightarrow> indexer_state" where
  "removeDataForFile relativePath s =
     s\<lparr>definitions := removeFromBuckets relativePath (definitions s),
       references := removeFromBuckets relativePath (references s),
       filesIndexed := filesIndexed s - {relativePath}\<rparr>"

text \<open>
  The body of \<open>newDefs.forEach\<close> and of \<open>newRefs.forEach\<close>: the entry is appended to the
  bucket of its name unless an entry there has its file, start line and start column.
\<close>

definition addEntry ::
  "'a reference_scheme \<Rightarrow> ('a reference_scheme) buckets \<Rightarrow> ('a reference_scheme) buckets" where
  "addEntry d m =
     (let existing = (case m (name d) of Some es \<Rightarrow> es | None \<Rightarrow> [])
      in if \<not> list_ex (\<lambda>e. file_of e = file_of d
                 \<and> line (start_pos (range_of e)) = line (start_pos (range_of d))
                 \<and> column (start_pos (range_of e)) = column (start_pos (range_of d))) existing
         then m(name d \<mapsto> existing @ [d])
         else m)"

text \<open>
  \<open>indexFile\<close> has one point where it waits: the call of the extractor. The code up to
  that point is \<open>indexFile_begin\<close>, which returns the relative path and the root for the
  rest, or \<open>None\<close> when the method has returned; the code after it is
  \<open>indexFile_settle\<close>, on the outcome of the extraction. The extractor that the code
  calls is \<open>parseFile\<close>; it is a parameter here, so that the \<open>catch\<close> of \<open>indexFile\<close>
  is modelled for every extractor that may reject.
\<close>

type_synonym extractor = "string \<Rightarrow> string \<Rightarrow> extraction"

definition indexFile_begin ::
  "'e node_env_scheme \<Rightarrow> indexer_state \<Rightarrow> string
     \<Rightarrow> indexer_state \<times> (string \<times> string) option" where
  "indexFile_begin env s absolutePath =
     (case truthyRoot s of
        None \<Rightarrow> (say (WarnCannotIndexFile absolutePath) s, None)
      | Some root \<Rightarrow>
          (let relativePath = path_relative env root absolutePath
           in (removeDataForFile relativePath s, Some (relativePath, root))))"

definition indexFile_settle :: "string \<Rightarrow> extraction \<Rightarrow> indexer_state \<Rightarrow> indexer_state" where
  "indexFile_settle relativePath result s =
     (case result of
        Inr (newDefs, newRefs) \<Rightarrow>
          s\<lparr>definitions := fold addEntry newDefs (definitions s),
            references := fold addEntry newRefs (references s),
            filesIndexed := insert relativePath (filesIndexed s)\<rparr>
      | Inl error \<Rightarrow> say (ErrorFailedToIndexFile relativePath error) s)"

definition indexFile ::
  "'e node_env_scheme \<Rightarrow> extractor \<Rightarrow> indexer_state \<Rightarrow> string \<Rightarrow> indexer_state" where
  "indexFile env extract s absolutePath =
     (case indexFile_begin env s absolutePath of
        (s1, None) \<Rightarrow> s1
      | (s1, Some (relativePath, root)) \<Rightarrow>
          indexFile_settle relativePath (extract absolutePath root) s1)"

subsection \<open>Full rebuild\<close>

text \<open>
  \<open>runFullIndex\<close> waits for the file listing and then, in the loop, for each
  \<open>indexFile\<close>. \<open>runFullIndex_enter\<close> is the code up to the first wait: it returns the
  root when the rebuild has started and \<open>None\<close> when the method has returned.
  \<open>runFullIndex_listed\<close> is the code between the listing and the loop: it returns the
  files to index, or \<open>None\<close> when the method has returned. \<open>indexFile\<close> cannot reject
  (nothing outside its \<open>try\<close> throws), so the \<open>catch\<close> around the loop is never
  entered. \<open>runFullIndex_finish\<close> is the code after the loop.
\<close>

definition runFullIndex_enter :: "indexer_state \<Rightarrow> indexer_state \<times> string option" where
  "runFullIndex_enter s =
     (case truthyRoot s of
        None \<Rightarrow> (say ErrorRootNotSet s, None)
      | Some root \<Rightarrow>
          (if isIndexing s then (say WarnAlreadyIndexing s, None)
           else (say (LogStartingFullIndex root) (s\<lparr>isIndexing := True\<rparr>)
                   \<lparr>definitions := Map.empty, references := Map.empty, filesIndexed := {}\<rparr>,
                 Some root)))"

definition runFullIndex_listed ::
  "js_error + string list \<Rightarrow> indexer_state \<Rightarrow> indexer_state \<times> string list option" where
  "runFullIndex_listed listing s =
     (case listing of
        Inl globError \<Rightarrow> ((say (ErrorFindingFiles globError) s)\<lparr>isIndexing := False\<rparr>, None)
      | Inr files \<Rightarrow>
          (if length files = 0 then ((say LogNoFilesFound s)\<lparr>isIndexing := False\<rparr>, None)
           else (say (LogFoundFiles (length files)) s, Some files)))"

definition indexFiles ::
  "'e node_env_scheme \<Rightarrow> extractor \<Rightarrow> string list \<Rightarrow> indexer_state \<Rightarrow> indexer_state" where
  "indexFiles env extract files s = fold (\<lambda>file st. indexFile env extract st file) files s"

definition runFullIndex_finish :: "indexer_state \<Rightarrow> indexer_state" where
  "runFullIndex_finish s =
     (say LogIndexedSummary (say LogIndexingComplete s))\<lparr>isIndexing := False\<rparr>"

definition runFullIndex_from ::
  "'e node_env_scheme \<Rightarrow> extractor \<Rightarrow> js_error + string list \<Rightarrow> indexer_state
     \<Rightarrow> indexer_state" where
  "runFullIndex_from env extract listing s =
     (case runFullIndex_listed listing s of
        (s2, None) \<Rightarrow> s2
      | (s2, Some files) \<Rightarrow> runFullIndex_finish (indexFiles env extract files s2))"

text \<open>The whole method, when nothing else runs while it waits.\<close>

definition runFullIndex ::
  "'e node_env_scheme \<Rightarrow> extractor \<Rightarrow> indexer_state \<Rightarrow> indexer_state" where
  "runFullIndex env extract s =
     (case runFullIndex_enter s of
        (s1, None) \<Rightarrow> s1
      | (s1, Some root) \<Rightarrow> runFullIndex_from env extract (glob env root) s1)"

subsection \<open>Saving a file\<close>

text \<open>The regular expression \<open>/\.(cls|trigger|apex)$/\<close>.\<close>

definition recognizedSuffix :: "string \<Rightarrow> bool" where
  "recognizedSuffix p \<longleftrightarrow> suffix ''.cls'' p \<or> suffix ''.trigger'' p \<or> suffix ''.apex'' p"

text \<open>
  \<open>handleFileSave\<close> starts \<open>indexFile\<close> and does not wait for it; the model gives the
  state when that \<open>indexFile\<close> has finished and nothing else has run in between.
\<close>

definition handleFileSave ::
  "'e node_env_scheme \<Rightarrow> extractor \<Rightarrow> indexer_state \<Rightarrow> string \<Rightarrow> indexer_state" where
  "handleFileSave env extract s uri =
     (case uriToPath env uri of
        None \<Rightarrow> s
      | Some filePath \<Rightarrow>
          (case truthyRoot s of
             None \<Rightarrow> s
           | Some root \<Rightarrow>
               (if filePath \<noteq> [] \<and> prefix root filePath
                then (if recognizedSuffix filePath
                      then indexFile env extract
                             (say (LogFileSaved (path_relative env root filePath)) s) filePath
                      else s)
                else s)))"

section \<open>A rebuild interleaved with further rebuild requests\<close>

text \<open>
  The service runs on one thread: a method runs until it waits, and other requests run
  while it waits. A rebuild that has started and has not returned is a task, at one of
  its three waiting points: waiting for the file listing (with the root), at the head of
  the loop (with the files still to index), or inside \<open>indexFile\<close> waiting for the
  extractor (with the relative path, the outcome that will arrive, and the files after
  this one). A configuration is the state of the service and the list of the tasks.
\<close>

datatype rebuild_task =
    AwaitListing string
  | AtLoop "string list"
  | AwaitExtraction string extraction "string list"

type_synonym config = "indexer_state \<times> rebuild_task list"

inductive step :: "'e node_env_scheme \<Rightarrow> extractor \<Rightarrow> config \<Rightarrow> config \<Rightarrow> bool"
  for env :: "'e node_env_scheme" and ext :: extractor where
  request:
    "runFullIndex_enter s = (s', r) \<Longrightarrow>
     step env ext (s, ts)
       (s', ts @ (case r of None \<Rightarrow> [] | Some root \<Rightarrow> [AwaitListing root]))"
| listed:
    "runFullIndex_listed (glob env root) s = (s', r) \<Longrightarrow>
     step env ext (s, ts1 @ AwaitListing root # ts2)
       (s', ts1 @ (case r of None \<Rightarrow> [] | Some files \<Rightarrow> [AtLoop files]) @ ts2)"
| next_file:
    "indexFile_begin env s file = (s', r) \<Longrightarrow>
     step env ext (s, ts1 @ AtLoop (file # files) # ts2)
       (s', ts1 @ (case r of
                     None \<Rightarrow> AtLoop files
                   | Some (relativePath, root) \<Rightarrow>
                       AwaitExtraction relativePath (ext file root) files) # ts2)"
| extracted:
    "step env ext (s, ts1 @ AwaitExtraction relativePath result files # ts2)
       (indexFile_settle relativePath result s, ts1 @ AtLoop files # ts2)"
| finished:
    "step env ext (s, ts1 @ AtLoop [] # ts2) (runFullIndex_finish s, ts1 @ ts2)"

text \<open>The configurations that the service reaches from one in which no rebuild runs.\<close>

inductive reachable :: "'e node_env_scheme \<Rightarrow> extractor \<Rightarrow> config \<Rightarrow> bool"
  for env :: "'e node_env_scheme" and ext :: extractor where
  idle: "\<not> isIndexing s \<Longrightarrow> reachable env ext (s, [])"
| after_step: "reachable env ext c \<Longrightarrow> step env ext c c' \<Longrightarrow> reachable env ext c'"

text \<open>What a task does from a state when it runs to its end with nothing in between.\<close>

fun run_task ::
  "'e node_env_scheme \<Rightarrow> extractor \<Rightarrow> rebuild_task \<Rightarrow> indexer_state \<Rightarrow> indexer_state" where
  "run_task env extract (AwaitListing root) s = runFullIndex_from env extract (glob env root) s"
| "run_task env extract (AtLoop files) s = runFullIndex_finish (indexFiles env extract files s)"
| "run_task env extract (AwaitExtraction relativePath result files) s =
     runFullIndex_finish (indexFiles env extract files (indexFile_settle relativePath result s))"

text \<open>
  At most one rebuild runs: there is no task and \<open>isIndexing\<close> is false, or there is
  one task, \<open>isIndexing\<close> is true and the root is set.
\<close>

definition one_rebuild :: "config \<Rightarrow> bool" where
  "one_rebuild c \<longleftrightarrow>
     (snd c = [] \<and> \<not> isIndexing (fst c))
     \<or> (\<exists>t. snd c = [t] \<and> isIndexing (fst c) \<and> truthyRoot (fst c) \<noteq> None)"

section \<open>Properties of the index\<close>

text \<open>The index data of two states is the same: all fields but the console.\<close>

definition same_index :: "indexer_state \<Rightarrow> indexer_state \<Rightarrow> bool" where
  "same_index s t \<longleftrightarrow>
     definitions s = definitions t \<and> references s = references t
     \<and> filesIndexed s = filesIndexed t \<and> projectRoot s = projectRoot t
     \<and> isIndexing s = isIndexing t"

text \<open>The deduplication key of an entry: its file and the start of its range.\<close>

definition entry_key :: "'a reference_scheme \<Rightarrow> string \<times> int \<times> int" where
  "entry_key e = (file_of e, line (start_pos (range_of e)), column (start_pos (range_of e)))"

definition unique_buckets :: "('a reference_scheme) buckets \<Rightarrow> bool" where
  "unique_buckets m \<longleftrightarrow> (\<forall>k es. m k = Some es \<longrightarrow> distinct (map entry_key es))"

definition index_unique :: "indexer_state \<Rightarrow> bool" where
  "index_unique s \<longleftrightarrow> unique_buckets (definitions s) \<and> unique_buckets (references s)"

text \<open>The entries stored under a name: the empty list when the name has no bucket.\<close>

definition entries_of :: "'a buckets \<Rightarrow> string \<Rightarrow> 'a list" where
  "entries_of m k = (case m k of Some es \<Rightarrow> es | None \<Rightarrow> [])"

text \<open>No entry of the file is stored, and no bucket is empty.\<close>

definition no_entry_of :: "string \<Rightarrow> ('a reference_scheme) buckets \<Rightarrow> bool" where
  "no_entry_of relativePath m \<longleftrightarrow>
     (\<forall>k es. m k = Some es \<longrightarrow> (\<forall>e \<in> set es. file_of e \<noteq> relativePath))"

definition no_empty_bucket :: "'a buckets \<Rightarrow> bool" where
  "no_empty_bucket m \<longleftrightarrow> (\<forall>k. m k \<noteq> Some [])"

text \<open>What the extractor returns for a file, nothing when it fails.\<close>

definition extractionFailed :: "extractor \<Rightarrow> string \<Rightarrow> string \<Rightarrow> bool" where
  "extractionFailed extract root f \<longleftrightarrow> isl (extract f root)"

definition definitionsOf :: "extractor \<Rightarrow> string \<Rightarrow> string \<Rightarrow> symbol_definition list" where
  "definitionsOf extract root f = (case extract f root of Inr (ds, rs) \<Rightarrow> ds | Inl e \<Rightarrow> [])"

definition referencesOf :: "extractor \<Rightarrow> string \<Rightarrow> string \<Rightarrow> reference list" where
  "referencesOf extract root f = (case extract f root of Inr (ds, rs) \<Rightarrow> rs | Inl e \<Rightarrow> [])"

text \<open>
  The extractor gives every entry of a file the relative path of that file, as
  \<open>parseFile\<close> does.
\<close>

definition files_own_entries ::
  "'e node_env_scheme \<Rightarrow> extractor \<Rightarrow> string \<Rightarrow> string list \<Rightarrow> bool" where
  "files_own_entries env extract root files \<longleftrightarrow>
     (\<forall>f \<in> set files.
        (\<forall>d \<in> set (definitionsOf extract root f). file_of d = path_relative env root f)
        \<and> (\<forall>r \<in> set (referencesOf extract root f). file_of r = path_relative env root f))"

text \<open>The first entry for each key of a list, in the order of the list.\<close>

fun firstByStart :: "'a reference_scheme list \<Rightarrow> 'a reference_scheme list" where
  "firstByStart [] = []"
| "firstByStart (d # ds) = d # firstByStart (filter (\<lambda>e. entry_key e \<noteq> entry_key d) ds)"

text \<open>
  The entries named \<open>n\<close> that a list of files contributes: file after file in the order
  of the list, and inside a file in the order of the extractor.
\<close>

definition inFileOrder :: "(string \<Rightarrow> 'a reference_scheme list) \<Rightarrow> string list \<Rightarrow> string
     \<Rightarrow> 'a reference_scheme list" where
  "inFileOrder entriesOf files n =
     concat (map (\<lambda>f. firstByStart (filter (\<lambda>d. name d = n) (entriesOf f))) files)"

text \<open>No bucket holds an entry of one of the files.\<close>

definition holds_none_of :: "(string \<Rightarrow> string) \<Rightarrow> string list \<Rightarrow> ('a reference_scheme) buckets \<Rightarrow> bool" where
  "holds_none_of rel files m \<longleftrightarrow>
     (\<forall>k. \<forall>e \<in> set (entries_of m k). file_of e \<notin> rel ` set files)"

text \<open>Every entry that \<open>parseFile\<close> has collected carries the relative path of the file.\<close>

definition acc_owned :: "string \<Rightarrow> parse_acc \<Rightarrow> bool" where
  "acc_owned rel acc \<longleftrightarrow>
     (\<forall>d \<in> set (acc_definitions acc). file_of d = rel)
     \<and> (\<forall>r \<in> set (acc_references acc). file_of r = rel)"


section \<open>An example project\<close>

text \<open>
  A small project to run the model on. The root is \<open>/p\<close>. \<open>posix_relative\<close> is
  \<open>path.relative\<close> on absolute POSIX paths without \<open>.\<close> and \<open>..\<close>: the components
  the two paths share are dropped, every component left of the first path becomes
  \<open>..\<close>, and the components left of the second path follow.
\<close>

fun components :: "string \<Rightarrow> string \<Rightarrow> string list" where
  "components cur [] = (if cur = [] then [] else [cur])"
| "components cur (c # cs) =
     (if c = CHR ''/'' then (if cur = [] then components [] cs else cur # components [] cs)
      else components (cur @ [c]) cs)"

fun dropCommon :: "string list \<Rightarrow> string list \<Rightarrow> string list \<times> string list" where
  "dropCommon (a # as) (b # bs) = (if a = b then dropCommon as bs else (a # as, b # bs))"
| "dropCommon as bs = (as, bs)"

fun joinSlash :: "string list \<Rightarrow> string" where
  "joinSlash [] = []"
| "joinSlash [x] = x"
| "joinSlash (x # y # ys) = x @ ''/'' @ joinSlash (y # ys)"

definition posix_relative :: "string \<Rightarrow> string \<Rightarrow> string" where
  "posix_relative from to =
     (case dropCommon (components [] from) (components [] to) of
        (fs, ts) \<Rightarrow> joinSlash (replicate (length fs) ''..'' @ ts))"

text \<open>
  The runtime of the example lists three files under the root. \<open>fileURLToPath\<close> drops
  \<open>file://\<close> from a URI. In \<open>ex_env_unlisted\<close> the file listing fails, in
  \<open>ex_env_unresolved\<close> every call of \<open>path.resolve\<close> throws.
\<close>

definition ex_env :: node_env where
  "ex_env =
     \<lparr>path_relative = posix_relative,
      path_resolve = (\<lambda>root rel. Inr (root @ ''/'' @ rel)),
      glob = (\<lambda>root. Inr [root @ ''/A.cls'', root @ ''/B.cls'', root @ ''/C.cls'']),
      fileURLToPath = (\<lambda>uri. Inr (drop 7 uri)),
      platform_win32 = False\<rparr>"

definition ex_env_unlisted :: node_env where
  "ex_env_unlisted = ex_env\<lparr>glob := (\<lambda>root. Inl (JsError ''EMFILE''))\<rparr>"

definition ex_env_unresolved :: node_env where
  "ex_env_unresolved = ex_env\<lparr>path_resolve := (\<lambda>root rel. Inl (JsError ''ENOENT''))\<rparr>"

text \<open>
  The entries of the example: a class \<open>Foo\<close> and a reference to \<open>Bar\<close> in \<open>A.cls\<close>, a
  method \<open>Foo\<close> in \<open>C.cls\<close>, a reference to \<open>debug\<close> in the script \<open>hello.apex\<close>.
  \<open>fooAgain\<close> has the name, the file and the start of \<open>fooInA\<close> and differs from it
  in its end and its kind.
\<close>

definition fooInA :: symbol_definition where
  "fooInA =
     \<lparr>file_of = ''A.cls'',
      range_of = \<lparr>start_pos = \<lparr>line = 1, column = 7\<rparr>, end_pos = \<lparr>line = 1, column = 10\<rparr>\<rparr>,
      name = ''Foo'', kind = KClass\<rparr>"

definition barInA :: reference where
  "barInA =
     \<lparr>file_of = ''A.cls'',
      range_of = \<lparr>start_pos = \<lparr>line = 2, column = 5\<rparr>, end_pos = \<lparr>line = 2, column = 8\<rparr>\<rparr>,
      name = ''Bar''\<rparr>"

definition fooInC :: symbol_definition where
  "fooInC =
     \<lparr>file_of = ''C.cls'',
      range_of = \<lparr>start_pos = \<lparr>line = 3, column = 8\<rparr>, end_pos = \<lparr>line = 3, column = 11\<rparr>\<rparr>,
      name = ''Foo'', kind = KMethod\<rparr>"

definition debugInScript :: reference where
  "debugInScript =
     \<lparr>file_of = ''hello.apex'',
      range_of = \<lparr>start_pos = \<lparr>line = 1, column = 8\<rparr>, end_pos = \<lparr>line = 1, column = 13\<rparr>\<rparr>,
      name = ''debug''\<rparr>"

definition fooAgain :: symbol_definition where
  "fooAgain =
     \<lparr>file_of = ''A.cls'',
      range_of = \<lparr>start_pos = \<lparr>line = 1, column = 7\<rparr>, end_pos = \<lparr>line = 4, column = 2\<rparr>\<rparr>,
      name = ''Foo'', kind = KInterface\<rparr>"

text \<open>
  Three extractors: \<open>ex_extract\<close> rejects for \<open>B.cls\<close>; \<open>ex_script_extract\<close> finds
  one reference and no definition in \<open>hello.apex\<close>; \<open>ex_nothing\<close> finds nothing.
\<close>

definition ex_extract :: extractor where
  "ex_extract p root =
     (if p = ''/p/A.cls'' then Inr ([fooInA], [barInA])
      else if p = ''/p/B.cls'' then Inl (JsError ''EACCES'')
      else if p = ''/p/C.cls'' then Inr ([fooInC], [])
      else Inr ([], []))"

definition ex_script_extract :: extractor where
  "ex_script_extract p root =
     (if p = ''/p/hello.apex'' then Inr ([], [debugInScript]) else Inr ([], []))"

definition ex_nothing :: extractor where
  "ex_nothing p root = Inr ([], [])"

text \<open>
  Two states: \<open>ex_ready\<close> has its root and an empty index, \<open>ex_indexed\<close> holds the
  entries of \<open>A.cls\<close>.
\<close>

definition ex_ready :: indexer_state where
  "ex_ready = initial_state\<lparr>projectRoot := Some ''/p''\<rparr>"

definition ex_indexed :: indexer_state where
  "ex_indexed =
     \<lparr>definitions = [''Foo'' \<mapsto> [fooInA]], references = [''Bar'' \<mapsto> [barInA]],
      filesIndexed = {''A.cls''}, projectRoot = Some ''/p'', isIndexing = False,
      console = []\<rparr>"

text \<open>
  A second project with the root \<open>/work/proj\<close>, and an extractor for a file of the
  directory \<open>/work/proj2\<close> beside it.
\<close>

definition ex_work :: indexer_state where
  "ex_work = initial_state\<lparr>projectRoot := Some ''/work/proj''\<rparr>"

definition fooInSibling :: symbol_definition where
  "fooInSibling =
     \<lparr>file_of = ''../proj2/A.cls'',
      range_of = \<lparr>start_pos = \<lparr>line = 1, column = 7\<rparr>, end_pos = \<lparr>line = 1, column = 10\<rparr>\<rparr>,
      name = ''Foo'', kind = KClass\<rparr>"

definition ex_sibling_extract :: extractor where
  "ex_sibling_extract p root =
     (if p = ''/work/proj2/A.cls'' then Inr ([fooInSibling], []) else Inr ([], []))"

text \<open>
  A parser for the example: \<open>A.cls\<close> holds the text \<open>ex_source\<close> (three lines; \<open>CHR 0x0A\<close>
  is the line break), \<open>B.cls\<close> cannot be read. The tree of a text is the text. The
  class query finds the class \<open>Foo\<close>, the property query the field \<open>b\<close>, the
  method query throws, and the reference query finds the three identifiers.
\<close>

definition ex_source :: string where
  "ex_source = ''class Foo {'' @ [CHR 0x0A] @ ''    Bar b;'' @ [CHR 0x0A] @ ''}''"

definition fooNode :: node where
  "fooNode = Node 6 9 \<lparr>row = 0, point_column = 6\<rparr> \<lparr>row = 0, point_column = 9\<rparr> None"

definition barNode :: node where
  "barNode = Node 16 19 \<lparr>row = 1, point_column = 4\<rparr> \<lparr>row = 1, point_column = 7\<rparr> None"

definition bNode :: node where
  "bNode = Node 20 21 \<lparr>row = 1, point_column = 8\<rparr> \<lparr>row = 1, point_column = 9\<rparr> None"

definition classNode :: node where
  "classNode = Node 0 24 \<lparr>row = 0, point_column = 0\<rparr> \<lparr>row = 2, point_column = 1\<rparr> (Some fooNode)"

definition fieldNode :: node where
  "fieldNode = Node 16 22 \<lparr>row = 1, point_column = 4\<rparr> \<lparr>row = 1, point_column = 10\<rparr> None"

definition bInA :: symbol_definition where
  "bInA =
     \<lparr>file_of = ''A.cls'',
      range_of = \<lparr>start_pos = \<lparr>line = 2, column = 9\<rparr>, end_pos = \<lparr>line = 2, column = 10\<rparr>\<rparr>,
      name = ''b'', kind = KProperty\<rparr>"

definition ex_parser_env :: "string parser_env" where
  "ex_parser_env =
     \<lparr>path_relative = posix_relative,
      path_resolve = (\<lambda>root rel. Inr (root @ ''/'' @ rel)),
      glob = (\<lambda>root. Inr [root @ ''/A.cls'', root @ ''/B.cls'']),
      fileURLToPath = (\<lambda>uri. Inr (drop 7 uri)),
      platform_win32 = False,
      readFile = (\<lambda>p. if p = ''/p/A.cls'' then Inr ex_source else Inl (JsError ''ENOENT'')),
      parserReady = True,
      parse = (\<lambda>sourceCode. Inr sourceCode),
      queryMatches = (\<lambda>q tree.
        if q = snd (definitionQueries ! 0) then Inr [[(''def'', classNode), (''name'', fooNode)]]
        else if q = snd (definitionQueries ! 5) then Inr [[(''def'', fieldNode), (''name'', bNode)]]
        else if q = snd (definitionQueries ! 3) then Inl (JsError ''Query error'')
        else if q = referenceQuery
        then Inr [[(''maybe_ref_name'', fooNode)], [(''ref_name'', barNode)],
                  [(''maybe_ref_name'', bNode)]]
        else Inr [])\<rparr>"

text \<open>The state of the example when a rebuild has started and waits for the listing.\<close>

definition ex_started :: indexer_state where
  "ex_started = fst (runFullIndex_enter ex_ready)"

text \<open>The same parser when \<open>parser.parse\<close> throws.\<close>

definition ex_parser_env_unparsed :: "string parser_env" where
  "ex_parser_env_unparsed =
     ex_parser_env\<lparr>parse := (\<lambda>sourceCode. Inl (JsError ''Invalid argument''))\<rparr>"


section \<open>Facts about the operations\<close>

subsection \<open>Fields that an operation keeps\<close>

lemma say_fields [simp]:
  "definitions (say e s) = definitions s"
  "references (say e s) = references s"
  "filesIndexed (say e s) = filesIndexed s"
  "projectRoot (say e s) = projectRoot s"
  "isIndexing (say e s) = isIndexing s"
  "console (say e s) = console s @ [e]"
  by (simp_all add: say_def)

lemma truthyRoot_say [simp]: "truthyRoot (say e s) = truthyRoot s"
  by (simp add: truthyRoot_def)

lemma removeDataForFile_fields [simp]:
  "definitions (removeDataForFile rel s) = removeFromBuckets rel (definitions s)"
  "references (removeDataForFile rel s) = removeFromBuckets rel (references s)"
  "filesIndexed (removeDataForFile rel s) = filesIndexed s - {rel}"
  "projectRoot (removeDataForFile rel s) = projectRoot s"
  "isIndexing (removeDataForFile rel s) = isIndexing s"
  "console (removeDataForFile rel s) = console s"
  by (simp_all add: removeDataForFile_def)

subsection \<open>Removing the entries of a file\<close>

lemma removeFromBuckets_Some:
  "removeFromBuckets rel m k = Some es \<longleftrightarrow>
     es \<noteq> [] \<and> (\<exists>old. m k = Some old \<and> es = filter (\<lambda>d. file_of d \<noteq> rel) old)"
proof (cases "m k")
  case None
  then show ?thesis by (simp add: removeFromBuckets_def)
next
  case (Some old)
  have eq: "filter (\<lambda>d. file_of d \<noteq> rel) old = old"
    if len: "length (filter (\<lambda>d. file_of d \<noteq> rel) old) = length old"
  proof (rule filter_True, rule ballI, rule ccontr)
    fix x assume "x \<in> set old" and "\<not> file_of x \<noteq> rel"
    then have "length (filter (\<lambda>d. file_of d \<noteq> rel) old) < length old"
      by (rule length_filter_less)
    with len show False by simp
  qed
  have le: "length (filter (\<lambda>d. file_of d \<noteq> rel) old) \<le> length old"
    by simp
  show ?thesis
    using Some eq le
    by (auto simp: removeFromBuckets_def Let_def simp del: length_filter_le)
qed

lemma entries_of_removeFromBuckets:
  "entries_of (removeFromBuckets rel m) k = filter (\<lambda>d. file_of d \<noteq> rel) (entries_of m k)"
proof (cases "removeFromBuckets rel m k")
  case None
  show ?thesis
  proof (cases "m k")
    case None
    then show ?thesis by (simp add: entries_of_def removeFromBuckets_def)
  next
    case (Some old)
    with \<open>removeFromBuckets rel m k = None\<close>
    have "filter (\<lambda>d. file_of d \<noteq> rel) old = []"
      using removeFromBuckets_Some [of rel m k "filter (\<lambda>d. file_of d \<noteq> rel) old"]
      by auto
    with Some \<open>removeFromBuckets rel m k = None\<close> show ?thesis
      by (simp add: entries_of_def)
  qed
next
  case (Some es)
  then show ?thesis
    using removeFromBuckets_Some [of rel m k es] by (auto simp: entries_of_def)
qed

lemma unique_buckets_empty: "unique_buckets Map.empty"
  by (simp add: unique_buckets_def)

lemma unique_buckets_remove:
  "unique_buckets m \<Longrightarrow> unique_buckets (removeFromBuckets rel m)"
  unfolding unique_buckets_def
  by (auto simp: removeFromBuckets_Some distinct_map_filter)

subsection \<open>Adding an entry\<close>

lemma collides_entry_key:
  "(file_of e = file_of d
       \<and> line (start_pos (range_of e)) = line (start_pos (range_of d))
       \<and> column (start_pos (range_of e)) = column (start_pos (range_of d)))
     \<longleftrightarrow> entry_key d = entry_key e"
  by (auto simp: entry_key_def)

lemma collides_iff:
  "list_ex (\<lambda>e. file_of e = file_of d
       \<and> line (start_pos (range_of e)) = line (start_pos (range_of d))
       \<and> column (start_pos (range_of e)) = column (start_pos (range_of d))) es
   \<longleftrightarrow> entry_key d \<in> entry_key ` set es"
  unfolding list_ex_iff image_iff collides_entry_key by simp

lemma addEntry_alt:
  "addEntry d m =
     (if entry_key d \<in> entry_key ` set (entries_of m (name d)) then m
      else m(name d \<mapsto> entries_of m (name d) @ [d]))"
  unfolding addEntry_def Let_def collides_iff entries_of_def by simp

lemma unique_buckets_addEntry:
  assumes "unique_buckets m"
  shows "unique_buckets (addEntry d m)"
proof -
  have "distinct (map entry_key (entries_of m (name d)))"
    using assms by (auto simp: unique_buckets_def entries_of_def split: option.splits)
  then show ?thesis
    using assms by (auto simp: addEntry_alt unique_buckets_def)
qed

lemma unique_buckets_fold_addEntry:
  "unique_buckets m \<Longrightarrow> unique_buckets (fold addEntry ds m)"
  by (induction ds arbitrary: m) (simp_all add: unique_buckets_addEntry)

subsection \<open>Unique keys in every bucket\<close>

lemma index_unique_say [simp]: "index_unique (say e s) = index_unique s"
  by (simp add: index_unique_def)

lemma index_unique_removeDataForFile:
  "index_unique s \<Longrightarrow> index_unique (removeDataForFile rel s)"
  by (simp add: index_unique_def unique_buckets_remove)

lemma index_unique_settle:
  "index_unique s \<Longrightarrow> index_unique (indexFile_settle rel result s)"
  by (auto simp: index_unique_def indexFile_settle_def unique_buckets_fold_addEntry
      split: sum.splits)

lemma index_unique_indexFile:
  "index_unique s \<Longrightarrow> index_unique (indexFile env ext s p)"
  by (auto simp: indexFile_def indexFile_begin_def Let_def index_unique_settle
      index_unique_removeDataForFile split: option.splits)

lemma index_unique_indexFiles:
  "index_unique s \<Longrightarrow> index_unique (indexFiles env ext files s)"
  unfolding indexFiles_def
  by (induction files arbitrary: s) (simp_all add: index_unique_indexFile)

lemma index_unique_finish [simp]: "index_unique (runFullIndex_finish s) = index_unique s"
  by (simp add: index_unique_def runFullIndex_finish_def)

lemma index_unique_enter:
  "index_unique s \<Longrightarrow> index_unique (fst (runFullIndex_enter s))"
  by (auto simp: runFullIndex_enter_def index_unique_def unique_buckets_empty say_def
      split: option.splits)

lemma index_unique_from:
  "index_unique s \<Longrightarrow> index_unique (runFullIndex_from env ext listing s)"
  by (auto simp: runFullIndex_from_def runFullIndex_listed_def index_unique_indexFiles
      split: sum.splits)
    (simp_all add: index_unique_def say_def)

lemma index_unique_runFullIndex:
  "index_unique s \<Longrightarrow> index_unique (runFullIndex env ext s)"
  using index_unique_enter [of s]
  by (auto simp: runFullIndex_def index_unique_from split: prod.splits option.splits)

lemma index_unique_handleFileSave:
  "index_unique s \<Longrightarrow> index_unique (handleFileSave env ext s uri)"
  by (auto simp: handleFileSave_def index_unique_indexFile split: option.splits)

lemma one_with_key:
  "distinct (map f xs) \<Longrightarrow> k \<in> f ` set xs \<Longrightarrow> length (filter (\<lambda>e. f e = k) xs) = 1"
proof (induction xs)
  case Nil
  then show ?case by simp
next
  case (Cons x xs)
  show ?case
  proof (cases "f x = k")
    case True
    from Cons.prems have "f x \<notin> f ` set xs"
      by simp
    with True have "\<forall>e \<in> set xs. f e \<noteq> k"
      by (metis imageI)
    then have "filter (\<lambda>e. f e = k) xs = []"
      by (simp add: filter_empty_conv)
    with True show ?thesis by simp
  next
    case False
    with Cons show ?thesis by auto
  qed
qed

lemma entries_of_upd [simp]:
  "entries_of (m(k \<mapsto> es)) k' = (if k' = k then es else entries_of m k')"
  by (simp add: entries_of_def)

lemma addEntry_key_stored:
  "entry_key d \<in> entry_key ` set (entries_of (addEntry d m) (name d))"
proof (cases "entry_key d \<in> entry_key ` set (entries_of m (name d))")
  case True
  then show ?thesis by (simp add: addEntry_alt)
next
  case False
  then show ?thesis by (simp add: addEntry_alt)
qed

lemma unique_buckets_entries: 
  assumes "unique_buckets m"
  shows "distinct (map entry_key (entries_of m k))"
  using assms unfolding unique_buckets_def entries_of_def
  by (cases "m k") simp_all

lemma addEntry_one_stored:
  assumes "unique_buckets m"
  shows "length (filter (\<lambda>e. entry_key e = entry_key d) (entries_of (addEntry d m) (name d))) = 1"
  using one_with_key [OF unique_buckets_entries [OF unique_buckets_addEntry [OF assms]] addEntry_key_stored] .

subsection \<open>What \<open>indexFile\<close> leaves of a file\<close>

lemma truthyRoot_cong:
  "projectRoot s = projectRoot t \<Longrightarrow> truthyRoot s = truthyRoot t"
  by (simp add: truthyRoot_def)

lemma no_entry_of_remove: "no_entry_of rel (removeFromBuckets rel m)"
  by (auto simp: no_entry_of_def removeFromBuckets_Some)

lemma no_empty_bucket_remove: "no_empty_bucket (removeFromBuckets rel m)"
  by (auto simp: no_empty_bucket_def removeFromBuckets_Some)

lemma no_entry_of_entries:
  "no_entry_of rel m \<longleftrightarrow> (\<forall>k. \<forall>e \<in> set (entries_of m k). file_of e \<noteq> rel)"
proof
  assume a: "no_entry_of rel m"
  show "\<forall>k. \<forall>e \<in> set (entries_of m k). file_of e \<noteq> rel"
  proof (intro allI ballI)
    fix k e assume "e \<in> set (entries_of m k)"
    then show "file_of e \<noteq> rel"
      using a by (cases "m k") (auto simp: entries_of_def no_entry_of_def)
  qed
next
  assume a: "\<forall>k. \<forall>e \<in> set (entries_of m k). file_of e \<noteq> rel"
  show "no_entry_of rel m"
    unfolding no_entry_of_def
  proof (intro allI impI ballI)
    fix k es e assume "m k = Some es" and "e \<in> set es"
    then have "e \<in> set (entries_of m k)" by (simp add: entries_of_def)
    with a show "file_of e \<noteq> rel" by blast
  qed
qed

lemma entries_of_addEntry:
  "entries_of (addEntry d m) k =
     (if k = name d \<and> entry_key d \<notin> entry_key ` set (entries_of m k)
      then entries_of m k @ [d] else entries_of m k)"
  by (simp add: addEntry_alt)

lemma set_entries_fold_addEntry:
  "set (entries_of (fold addEntry ds m) k) \<subseteq> set (entries_of m k) \<union> set ds"
proof (induction ds arbitrary: m)
  case Nil
  then show ?case by simp
next
  case (Cons d ds)
  have "set (entries_of (addEntry d m) k) \<subseteq> set (entries_of m k) \<union> {d}"
    by (auto simp: entries_of_addEntry)
  with Cons.IH [of "addEntry d m"] show ?case by auto
qed

lemma indexFile_rooted:
  "truthyRoot s = Some root \<Longrightarrow>
   indexFile env ext s p =
     indexFile_settle (path_relative env root p) (ext p root)
       (removeDataForFile (path_relative env root p) s)"
  by (simp add: indexFile_def indexFile_begin_def Let_def)

lemma indexFile_unrooted:
  "truthyRoot s = None \<Longrightarrow> indexFile env ext s p = say (WarnCannotIndexFile p) s"
  by (simp add: indexFile_def indexFile_begin_def)

lemma settle_definitions:
  "definitions (indexFile_settle rel (ext p root) s) =
     fold addEntry (definitionsOf ext root p) (definitions s)"
  by (auto simp: indexFile_settle_def definitionsOf_def split: sum.splits)

lemma settle_references:
  "references (indexFile_settle rel (ext p root) s) =
     fold addEntry (referencesOf ext root p) (references s)"
  by (auto simp: indexFile_settle_def referencesOf_def split: sum.splits)

lemma settle_filesIndexed:
  "filesIndexed (indexFile_settle rel (ext p root) s) =
     (if extractionFailed ext root p then filesIndexed s else insert rel (filesIndexed s))"
  by (auto simp: indexFile_settle_def extractionFailed_def split: sum.splits)

lemma settle_other [simp]:
  "projectRoot (indexFile_settle rel result s) = projectRoot s"
  "isIndexing (indexFile_settle rel result s) = isIndexing s"
  by (auto simp: indexFile_settle_def split: sum.splits)

lemma truthyRoot_settle [simp]: "truthyRoot (indexFile_settle rel result s) = truthyRoot s"
  by (rule truthyRoot_cong) simp

lemma truthyRoot_remove [simp]: "truthyRoot (removeDataForFile rel s) = truthyRoot s"
  by (rule truthyRoot_cong) simp

lemma truthyRoot_indexFile [simp]: "truthyRoot (indexFile env ext s p) = truthyRoot s"
  by (cases "truthyRoot s") (simp_all add: indexFile_rooted indexFile_unrooted)

lemma isIndexing_indexFile [simp]: "isIndexing (indexFile env ext s p) = isIndexing s"
  by (cases "truthyRoot s") (simp_all add: indexFile_rooted indexFile_unrooted)

lemma fresh_entries_definitions:
  assumes "truthyRoot s = Some root"
    and "e \<in> set (entries_of (definitions (indexFile env ext s p)) k)"
    and "file_of e = path_relative env root p"
  shows "e \<in> set (definitionsOf ext root p)"
proof -
  let ?rel = "path_relative env root p"
  have "e \<in> set (entries_of (removeFromBuckets ?rel (definitions s)) k)
          \<union> set (definitionsOf ext root p)"
    using assms(2)
      set_entries_fold_addEntry [of "definitionsOf ext root p"
        "removeFromBuckets ?rel (definitions s)" k]
    by (auto simp: indexFile_rooted [OF assms(1)] settle_definitions)
  moreover have "e \<notin> set (entries_of (removeFromBuckets ?rel (definitions s)) k)"
    using assms(3) by (simp add: entries_of_removeFromBuckets)
  ultimately show ?thesis by simp
qed

lemma fresh_entries_references:
  assumes "truthyRoot s = Some root"
    and "e \<in> set (entries_of (references (indexFile env ext s p)) k)"
    and "file_of e = path_relative env root p"
  shows "e \<in> set (referencesOf ext root p)"
proof -
  let ?rel = "path_relative env root p"
  have "e \<in> set (entries_of (removeFromBuckets ?rel (references s)) k)
          \<union> set (referencesOf ext root p)"
    using assms(2)
      set_entries_fold_addEntry [of "referencesOf ext root p"
        "removeFromBuckets ?rel (references s)" k]
    by (auto simp: indexFile_rooted [OF assms(1)] settle_references)
  moreover have "e \<notin> set (entries_of (removeFromBuckets ?rel (references s)) k)"
    using assms(3) by (simp add: entries_of_removeFromBuckets)
  ultimately show ?thesis by simp
qed

subsection \<open>The files of a rebuild\<close>

lemma enter_started:
  "truthyRoot s = Some root \<Longrightarrow> \<not> isIndexing s \<Longrightarrow>
   runFullIndex_enter s =
     (say (LogStartingFullIndex root) (s\<lparr>isIndexing := True\<rparr>)
        \<lparr>definitions := Map.empty, references := Map.empty, filesIndexed := {}\<rparr>,
      Some root)"
  by (simp add: runFullIndex_enter_def)

lemma runFullIndex_started:
  "truthyRoot s = Some root \<Longrightarrow> \<not> isIndexing s \<Longrightarrow>
   runFullIndex env ext s =
     runFullIndex_from env ext (glob env root)
       (say (LogStartingFullIndex root) (s\<lparr>isIndexing := True\<rparr>)
          \<lparr>definitions := Map.empty, references := Map.empty, filesIndexed := {}\<rparr>)"
  by (simp add: runFullIndex_def enter_started)

lemma filesIndexed_indexFile:
  "truthyRoot s = Some root \<Longrightarrow>
   filesIndexed (indexFile env ext s f) =
     (if extractionFailed ext root f then filesIndexed s - {path_relative env root f}
      else insert (path_relative env root f) (filesIndexed s))"
  by (simp add: indexFile_rooted settle_filesIndexed)

lemma truthyRoot_indexFiles [simp]: "truthyRoot (indexFiles env ext files s) = truthyRoot s"
  unfolding indexFiles_def by (induction files arbitrary: s) simp_all

lemma isIndexing_indexFiles [simp]: "isIndexing (indexFiles env ext files s) = isIndexing s"
  unfolding indexFiles_def by (induction files arbitrary: s) simp_all

lemma indexFiles_Cons:
  "indexFiles env ext (f # fs) s = indexFiles env ext fs (indexFile env ext s f)"
  by (simp add: indexFiles_def)

lemma indexFiles_Nil [simp]: "indexFiles env ext [] s = s"
  by (simp add: indexFiles_def)

lemma same_outcomeD:
  "\<forall>f \<in> A. \<forall>g \<in> A. r f = r g \<longrightarrow> (P f \<longleftrightarrow> P g) \<Longrightarrow>
   a \<in> A \<Longrightarrow> b \<in> A \<Longrightarrow> r a = r b \<Longrightarrow> P a \<Longrightarrow> P b"
  by blast

lemma same_outcome_subset:
  "\<forall>f \<in> A. \<forall>g \<in> A. r f = r g \<longrightarrow> (P f \<longleftrightarrow> P g) \<Longrightarrow> B \<subseteq> A \<Longrightarrow>
   \<forall>f \<in> B. \<forall>g \<in> B. r f = r g \<longrightarrow> (P f \<longleftrightarrow> P g)"
  by blast

lemma same_outcome_split:
  assumes "\<forall>f \<in> A. \<forall>g \<in> A. r f = r g \<longrightarrow> (P f \<longleftrightarrow> P g)"
  shows "r ` {f \<in> A. \<not> P f} = r ` A - r ` {f \<in> A. P f}"
proof (intro set_eqI iffI)
  fix x assume "x \<in> r ` {f \<in> A. \<not> P f}"
  then obtain a where a: "a \<in> A" "\<not> P a" "x = r a" by blast
  have "x \<notin> r ` {f \<in> A. P f}"
  proof
    assume "x \<in> r ` {f \<in> A. P f}"
    then obtain b where b: "b \<in> A" "P b" "x = r b" by blast
    from same_outcomeD [OF assms b(1) a(1) _ b(2)] a(3) b(3) have "P a" by simp
    with a(2) show False by simp
  qed
  with a show "x \<in> r ` A - r ` {f \<in> A. P f}" by blast
next
  fix x assume "x \<in> r ` A - r ` {f \<in> A. P f}"
  then show "x \<in> r ` {f \<in> A. \<not> P f}" by blast
qed

lemma insert_outside: "x \<notin> A \<Longrightarrow> (insert x F - A) \<union> B = (F - A) \<union> insert x B"
  by blast

lemma remove_twice: "((F - {x}) - A) \<union> B = (F - insert x A) \<union> B"
  by blast

lemma filesIndexed_indexFiles:
  assumes "truthyRoot s = Some root"
    and "\<forall>f \<in> set files. \<forall>g \<in> set files.
           path_relative env root f = path_relative env root g \<longrightarrow>
           (extractionFailed ext root f \<longleftrightarrow> extractionFailed ext root g)"
  shows "filesIndexed (indexFiles env ext files s) =
           (filesIndexed s - path_relative env root ` {f \<in> set files. extractionFailed ext root f})
           \<union> path_relative env root ` {f \<in> set files. \<not> extractionFailed ext root f}"
  using assms
proof (induction files arbitrary: s)
  case Nil
  then show ?case by simp
next
  case (Cons f fs)
  let ?rel = "path_relative env root"
  let ?s1 = "indexFile env ext s f"
  have root1: "truthyRoot ?s1 = Some root"
    using Cons.prems(1) by simp
  have cons: "\<forall>a \<in> set fs. \<forall>b \<in> set fs.
           ?rel a = ?rel b \<longrightarrow> (extractionFailed ext root a \<longleftrightarrow> extractionFailed ext root b)"
    by (rule same_outcome_subset [OF Cons.prems(2)]) auto
  have IH: "filesIndexed (indexFiles env ext fs ?s1) =
           (filesIndexed ?s1 - ?rel ` {a \<in> set fs. extractionFailed ext root a})
           \<union> ?rel ` {a \<in> set fs. \<not> extractionFailed ext root a}"
    by (rule Cons.IH [OF root1 cons])
  show ?case
  proof (cases "extractionFailed ext root f")
    case True
    have fi: "filesIndexed ?s1 = filesIndexed s - {?rel f}"
      using True by (simp add: filesIndexed_indexFile [OF Cons.prems(1)])
    have A: "{a \<in> set (f # fs). extractionFailed ext root a} =
        insert f {a \<in> set fs. extractionFailed ext root a}"
      using True by auto
    have B: "{a \<in> set (f # fs). \<not> extractionFailed ext root a} =
        {a \<in> set fs. \<not> extractionFailed ext root a}"
      using True by auto
    show ?thesis
      unfolding indexFiles_Cons IH fi A B image_insert by (rule remove_twice)
  next
    case False
    have fi: "filesIndexed ?s1 = insert (?rel f) (filesIndexed s)"
      using False by (simp add: filesIndexed_indexFile [OF Cons.prems(1)])
    have notin: "?rel f \<notin> ?rel ` {a \<in> set fs. extractionFailed ext root a}"
    proof
      assume "?rel f \<in> ?rel ` {a \<in> set fs. extractionFailed ext root a}"
      then obtain a where a: "a \<in> set fs" "extractionFailed ext root a" "?rel f = ?rel a"
        by auto
      have "extractionFailed ext root f"
        by (rule same_outcomeD [OF Cons.prems(2) _ _ _ a(2)]) (simp_all add: a)
      with False show False by simp
    qed
    have A: "{a \<in> set (f # fs). extractionFailed ext root a} =
        {a \<in> set fs. extractionFailed ext root a}"
      using False by auto
    have B: "{a \<in> set (f # fs). \<not> extractionFailed ext root a} =
        insert f {a \<in> set fs. \<not> extractionFailed ext root a}"
      using False by auto
    show ?thesis
      unfolding indexFiles_Cons IH fi A B image_insert by (rule insert_outside [OF notin])
  qed
qed

lemma finish_fields [simp]:
  "definitions (runFullIndex_finish s) = definitions s"
  "references (runFullIndex_finish s) = references s"
  "filesIndexed (runFullIndex_finish s) = filesIndexed s"
  "projectRoot (runFullIndex_finish s) = projectRoot s"
  "isIndexing (runFullIndex_finish s) = False"
  by (simp_all add: runFullIndex_finish_def)

lemma filesIndexed_runFullIndex:
  assumes "truthyRoot s = Some root" and "\<not> isIndexing s" and "glob env root = Inr files"
    and "\<forall>f \<in> set files. \<forall>g \<in> set files.
           path_relative env root f = path_relative env root g \<longrightarrow>
           (extractionFailed ext root f \<longleftrightarrow> extractionFailed ext root g)"
  shows "filesIndexed (runFullIndex env ext s) =
           path_relative env root ` set files
           - path_relative env root ` set (filter (extractionFailed ext root) files)"
proof -
  let ?rel = "path_relative env root"
  let ?s1 = "say (LogStartingFullIndex root) (s\<lparr>isIndexing := True\<rparr>)
          \<lparr>definitions := Map.empty, references := Map.empty, filesIndexed := {}\<rparr>"
  let ?s2 = "say (LogFoundFiles (length files)) ?s1"
  have root2: "truthyRoot ?s2 = Some root"
    using assms(1) by (simp add: truthyRoot_def say_def)
  have empty2: "filesIndexed ?s2 = {}"
    by (simp add: say_def)
  have run: "filesIndexed (runFullIndex env ext s) =
      (if files = [] then {} else filesIndexed (indexFiles env ext files ?s2))"
    using assms(1,2,3)
    by (simp add: runFullIndex_started runFullIndex_from_def runFullIndex_listed_def)
  have ok: "?rel ` {f \<in> set files. \<not> extractionFailed ext root f} =
      ?rel ` set files - ?rel ` {f \<in> set files. extractionFailed ext root f}"
    by (rule same_outcome_split [OF assms(4)])
  show ?thesis
  proof (cases "files = []")
    case True
    with run show ?thesis by simp
  next
    case False
    with run have "filesIndexed (runFullIndex env ext s) =
        filesIndexed (indexFiles env ext files ?s2)" by simp
    also have "\<dots> = ?rel ` {f \<in> set files. \<not> extractionFailed ext root f}"
      unfolding filesIndexed_indexFiles [OF root2 assms(4)] empty2 by simp
    finally show ?thesis using ok by simp
  qed
qed

lemma parseFile_succeeds: "\<not> extractionFailed (parseFile penv) root f"
  by (simp add: extractionFailed_def parseFile_def Let_def)

subsection \<open>Lookups\<close>

lemma collect_fold:
  "fold (\<lambda>d locations.
             (case toLspLocation env s d uri of
                Some lspLoc \<Rightarrow> locations @ [lspLoc]
              | None \<Rightarrow> locations)) entries acc
   = acc @ List.map_filter (\<lambda>d. toLspLocation env s d uri) entries"
  by (induction entries arbitrary: acc) (auto simp: List.map_filter_simps split: option.splits)

lemma collectLocations_map_filter:
  "collectLocations env s uri entries = List.map_filter (\<lambda>d. toLspLocation env s d uri) entries"
  by (simp add: collectLocations_def collect_fold)

lemma findDefinitions_entries:
  "findDefinitions env s symbol uri =
     List.map_filter (\<lambda>d. toLspLocation env s d uri) (entries_of (definitions s) symbol)"
  by (simp add: findDefinitions_def collectLocations_map_filter entries_of_def)

lemma findReferences_entries:
  "findReferences env s symbol uri =
     List.map_filter (\<lambda>d. toLspLocation env s d uri) (entries_of (references s) symbol)"
  by (simp add: findReferences_def collectLocations_map_filter entries_of_def)

lemma unrooted_None: "projectRoot s = None \<Longrightarrow> truthyRoot s = None"
  by (simp add: truthyRoot_def)

lemma toLspLocation_unrooted: "truthyRoot s = None \<Longrightarrow> toLspLocation env s d uri = None"
  by (simp add: toLspLocation_def)

lemma toLspLocation_thrown:
  "\<forall>root f. isl (path_resolve env root f) \<Longrightarrow> toLspLocation env s d uri = None"
proof (cases "truthyRoot s")
  case None
  then show ?thesis by (simp add: toLspLocation_def)
next
  case (Some root)
  assume "\<forall>root f. isl (path_resolve env root f)"
  then have "isl (path_resolve env root (file_of d))" by blast
  with Some show ?thesis
    by (auto simp: toLspLocation_def isl_def)
qed




lemma map_filter_None: "(\<And>x. f x = None) \<Longrightarrow> List.map_filter f xs = []"
  by (induction xs) (simp_all add: List.map_filter_simps)

subsection \<open>The example project\<close>

lemma rel_A: "posix_relative ''/p'' ''/p/A.cls'' = ''A.cls''"
  by (simp add: posix_relative_def)

lemma rel_B: "posix_relative ''/p'' ''/p/B.cls'' = ''B.cls''"
  by (simp add: posix_relative_def)

lemma rel_C: "posix_relative ''/p'' ''/p/C.cls'' = ''C.cls''"
  by (simp add: posix_relative_def)

lemma rel_hello: "posix_relative ''/p'' ''/p/hello.apex'' = ''hello.apex''"
  by (simp add: posix_relative_def)

lemma ex_indexed_root: "truthyRoot ex_indexed = Some ''/p''"
  by (simp add: truthyRoot_def ex_indexed_def)

lemma ex_env_relative: "path_relative ex_env = posix_relative"
  by (simp add: ex_env_def)

lemma index_unique_initial: "index_unique initial_state"
  by (simp add: index_unique_def initial_state_def unique_buckets_empty)

lemma addEntry_collision:
  assumes "name d' = name d" and "entry_key d' = entry_key d"
  shows "addEntry d' (addEntry d m) = addEntry d m"
proof -
  have "entry_key d' \<in> entry_key ` set (entries_of (addEntry d m) (name d'))"
    using addEntry_key_stored [of d m] assms by simp
  then show ?thesis
    by (simp add: addEntry_alt [of d'])
qed

lemma ex_indexed_unique: "index_unique ex_indexed"
  by (simp add: index_unique_def unique_buckets_def ex_indexed_def)

lemma truthyRoot_nonempty: "truthyRoot s = Some root \<Longrightarrow> root \<noteq> []"
  by (auto simp: truthyRoot_def split: option.splits if_splits)

lemma prefix_nonempty: "prefix root filePath \<Longrightarrow> root \<noteq> [] \<Longrightarrow> filePath \<noteq> []"
  by auto

lemma rel_sibling: "posix_relative ''/work/proj'' ''/work/proj2/A.cls'' = ''../proj2/A.cls''"
  by (simp add: posix_relative_def)

lemma parseFile_example:
  "parseFile ex_parser_env ''/p/A.cls'' ''/p'' = Inr ([fooInA, bInA], [barInA])"
  by (simp add: parseFile_def parseFile_try_def ex_parser_env_def rel_A Let_def
      definitionQueries_def referenceQuery_def runDefinitionQuery_def addDefinitionMatch_def
      addReferenceMatch_def findCapture_def pushDefinition_def getNodeRange_def
      getNodeText_def substring_def pointToPosition_def empty_acc_def ex_source_def
      fooNode_def barNode_def bNode_def classNode_def fieldNode_def fooInA_def bInA_def
      barInA_def)

subsection \<open>One rebuild at a time\<close>

lemma single_task: "ts1 @ x # ts2 = [t] \<longleftrightarrow> ts1 = [] \<and> x = t \<and> ts2 = []"
  by (cases ts1) auto

lemma enter_rejected:
  "isIndexing s \<Longrightarrow> truthyRoot s = Some root \<Longrightarrow>
   runFullIndex_enter s = (say WarnAlreadyIndexing s, None)"
  by (simp add: runFullIndex_enter_def)

lemma enter_unrooted:
  "truthyRoot s = None \<Longrightarrow> runFullIndex_enter s = (say ErrorRootNotSet s, None)"
  by (simp add: runFullIndex_enter_def)

lemma one_rebuild_request:
  assumes "one_rebuild (s, ts)" and "runFullIndex_enter s = (s', r)"
  shows "one_rebuild (s', ts @ (case r of None \<Rightarrow> [] | Some root \<Rightarrow> [AwaitListing root]))"
proof (cases "isIndexing s")
  case True
  with assms(1) obtain t root where "ts = [t]" and root: "truthyRoot s = Some root"
    by (auto simp: one_rebuild_def)
  moreover have "s' = say WarnAlreadyIndexing s" and "r = None"
    using assms(2) enter_rejected [OF True root] by simp_all
  ultimately show ?thesis
    using True by (simp add: one_rebuild_def)
next
  case False
  with assms(1) have ts: "ts = []"
    by (auto simp: one_rebuild_def)
  show ?thesis
  proof (cases "truthyRoot s")
    case None
    then have "s' = say ErrorRootNotSet s" and "r = None"
      using assms(2) by (simp_all add: enter_unrooted)
    with ts False show ?thesis by (simp add: one_rebuild_def)
  next
    case (Some root)
    have "r = Some root" and "isIndexing s'" and "truthyRoot s' = Some root"
      using assms(2) Some enter_started [OF Some False]
      by (auto simp: truthyRoot_def say_def)
    with ts show ?thesis by (simp add: one_rebuild_def)
  qed
qed

lemma listed_fields:
  assumes "runFullIndex_listed listing s = (s', r)"
  shows "truthyRoot s' = truthyRoot s"
    and "r = None \<Longrightarrow> \<not> isIndexing s'"
    and "r \<noteq> None \<Longrightarrow> isIndexing s' = isIndexing s"
  using assms
  by (auto simp: runFullIndex_listed_def truthyRoot_def say_def split: sum.splits if_splits)

lemma begin_fields:
  assumes "indexFile_begin env s f = (s', r)"
  shows "truthyRoot s' = truthyRoot s" and "isIndexing s' = isIndexing s"
  using assms
  by (auto simp: indexFile_begin_def Let_def split: option.splits)

lemma one_rebuild_step:
  assumes "step env ext c c'" and "one_rebuild c"
  shows "one_rebuild c'"
  using assms
proof (cases rule: step.cases)
  case (request s s' r ts)
  with assms(2) show ?thesis
    using one_rebuild_request by simp
next
  case (listed root s s' r ts1 ts2)
  with assms(2) have busy: "isIndexing s" "truthyRoot s \<noteq> None" and "ts1 = []" "ts2 = []"
    by (auto simp: one_rebuild_def single_task)
  then show ?thesis
    using listed listed_fields [OF listed(3)]
    by (cases r) (simp_all add: one_rebuild_def)
next
  case (next_file s f s' r ts1 files ts2)
  with assms(2) have busy: "isIndexing s" "truthyRoot s \<noteq> None" and "ts1 = []" "ts2 = []"
    by (auto simp: one_rebuild_def single_task)
  then show ?thesis
    using next_file begin_fields [OF next_file(3)]
    by (simp add: one_rebuild_def)
next
  case (extracted s ts1 relativePath result files ts2)
  with assms(2) have busy: "isIndexing s" "truthyRoot s \<noteq> None" and "ts1 = []" "ts2 = []"
    by (auto simp: one_rebuild_def single_task)
  then show ?thesis
    using extracted by (simp add: one_rebuild_def)
next
  case (finished s ts1 ts2)
  with assms(2) have "ts1 = []" "ts2 = []"
    by (auto simp: one_rebuild_def single_task)
  then show ?thesis
    using finished by (simp add: one_rebuild_def)
qed

lemma reachable_one_rebuild: "reachable env ext c \<Longrightarrow> one_rebuild c"
proof (induction rule: reachable.induct)
  case (idle s)
  then show ?case by (simp add: one_rebuild_def)
next
  case (after_step c c')
  then show ?case using one_rebuild_step by blast
qed

lemma same_index_refl [simp]: "same_index s s"
  by (simp add: same_index_def)

lemma same_index_say [simp]: "same_index (say e s) s"
  by (simp add: same_index_def)

lemma same_index_truthyRoot: "same_index s t \<Longrightarrow> truthyRoot s = truthyRoot t"
  by (simp add: same_index_def truthyRoot_def)

lemma same_index_remove:
  "same_index s t \<Longrightarrow> same_index (removeDataForFile rel s) (removeDataForFile rel t)"
  by (simp add: same_index_def)

lemma same_index_settle:
  "same_index s t \<Longrightarrow> same_index (indexFile_settle rel result s) (indexFile_settle rel result t)"
  by (cases result) (auto simp: same_index_def indexFile_settle_def)

lemma same_index_indexFile:
  assumes "same_index s t"
  shows "same_index (indexFile env ext s f) (indexFile env ext t f)"
proof (cases "truthyRoot s")
  case None
  moreover have "truthyRoot t = None"
    using None same_index_truthyRoot [OF assms] by simp
  ultimately show ?thesis
    using assms by (simp add: indexFile_unrooted same_index_def)
next
  case (Some root)
  moreover have "truthyRoot t = Some root"
    using Some same_index_truthyRoot [OF assms] by simp
  ultimately show ?thesis
    using assms by (simp add: indexFile_rooted same_index_settle same_index_remove)
qed

lemma same_index_indexFiles:
  "same_index s t \<Longrightarrow> same_index (indexFiles env ext files s) (indexFiles env ext files t)"
  by (induction files arbitrary: s t) (simp_all add: indexFiles_Cons same_index_indexFile)

lemma same_index_finish:
  "same_index s t \<Longrightarrow> same_index (runFullIndex_finish s) (runFullIndex_finish t)"
  by (simp add: same_index_def)

lemma same_index_from:
  assumes "same_index s t"
  shows "same_index (runFullIndex_from env ext listing s) (runFullIndex_from env ext listing t)"
proof (cases listing)
  case (Inl e)
  then show ?thesis
    using assms by (simp add: runFullIndex_from_def runFullIndex_listed_def same_index_def)
next
  case (Inr files)
  show ?thesis
  proof (cases "files = []")
    case True
    with Inr assms show ?thesis
      by (simp add: runFullIndex_from_def runFullIndex_listed_def same_index_def)
  next
    case False
    have "same_index (say (LogFoundFiles (length files)) s)
        (say (LogFoundFiles (length files)) t)"
      using assms by (simp add: same_index_def)
    then have "same_index
        (runFullIndex_finish (indexFiles env ext files (say (LogFoundFiles (length files)) s)))
        (runFullIndex_finish (indexFiles env ext files (say (LogFoundFiles (length files)) t)))"
      by (intro same_index_finish same_index_indexFiles)
    with Inr False show ?thesis
      by (simp add: runFullIndex_from_def runFullIndex_listed_def)
  qed
qed

lemma same_index_run_task:
  "same_index s t \<Longrightarrow> same_index (run_task env ext task s) (run_task env ext task t)"
  by (cases task)
    (simp_all add: same_index_from same_index_finish same_index_indexFiles same_index_settle)

lemma step_single:
  "step env ext (s, [t]) c \<Longrightarrow> (step env ext)\<^sup>*\<^sup>* c c' \<Longrightarrow> (step env ext)\<^sup>*\<^sup>* (s, [t]) c'"
  by (rule converse_rtranclp_into_rtranclp)

lemma loop_steps:
  "(step env ext)\<^sup>*\<^sup>* (s, [AtLoop files]) (run_task env ext (AtLoop files) s, [])"
proof (induction files arbitrary: s)
  case Nil
  have "step env ext (s, [] @ AtLoop [] # []) (runFullIndex_finish s, [] @ [])"
    by (rule step.finished)
  then show ?case by simp
next
  case (Cons f fs)
  obtain s' r where b: "indexFile_begin env s f = (s', r)"
    by (cases "indexFile_begin env s f")
  have first: "step env ext (s, [] @ AtLoop (f # fs) # [])
      (s', [] @ (case r of
                     None \<Rightarrow> AtLoop fs
                   | Some (relativePath, root) \<Rightarrow>
                       AwaitExtraction relativePath (ext f root) fs) # [])"
    by (rule step.next_file [OF b])
  show ?case
  proof (cases r)
    case None
    then have "indexFile env ext s f = s'"
      using b by (simp add: indexFile_def)
    then have "(step env ext)\<^sup>*\<^sup>* (s', [AtLoop fs]) (run_task env ext (AtLoop (f # fs)) s, [])"
      using Cons.IH [of s'] by (simp add: indexFiles_Cons)
    moreover have "step env ext (s, [AtLoop (f # fs)]) (s', [AtLoop fs])"
      using first None by simp
    ultimately show ?thesis by (rule step_single [rotated])
  next
    case (Some a)
    obtain rel root where a: "a = (rel, root)" by (cases a)
    have whole: "indexFile env ext s f = indexFile_settle rel (ext f root) s'"
      using b Some a by (simp add: indexFile_def)
    have one: "step env ext (s, [AtLoop (f # fs)]) (s', [AwaitExtraction rel (ext f root) fs])"
      using first Some a by simp
    have "step env ext (s', [] @ AwaitExtraction rel (ext f root) fs # [])
        (indexFile_settle rel (ext f root) s', [] @ AtLoop fs # [])"
      by (rule step.extracted)
    then have two: "step env ext (s', [AwaitExtraction rel (ext f root) fs])
        (indexFile env ext s f, [AtLoop fs])"
      using whole by simp
    have rest: "(step env ext)\<^sup>*\<^sup>* (indexFile env ext s f, [AtLoop fs])
        (run_task env ext (AtLoop (f # fs)) s, [])"
      using Cons.IH [of "indexFile env ext s f"] by (simp add: indexFiles_Cons)
    show ?thesis
      by (rule step_single [OF one step_single [OF two rest]])
  qed
qed

lemma task_steps: "(step env ext)\<^sup>*\<^sup>* (s, [t]) (run_task env ext t s, [])"
proof (cases t)
  case (AwaitListing root)
  obtain s' r where l: "runFullIndex_listed (glob env root) s = (s', r)"
    by (cases "runFullIndex_listed (glob env root) s")
  have first: "step env ext (s, [] @ AwaitListing root # [])
       (s', [] @ (case r of None \<Rightarrow> [] | Some files \<Rightarrow> [AtLoop files]) @ [])"
    by (rule step.listed [OF l])
  show ?thesis
  proof (cases r)
    case None
    then have "run_task env ext t s = s'"
      using l AwaitListing by (simp add: runFullIndex_from_def)
    moreover have "step env ext (s, [t]) (s', [])"
      using first None AwaitListing by simp
    ultimately show ?thesis by auto
  next
    case (Some files)
    then have "run_task env ext t s = run_task env ext (AtLoop files) s'"
      using l AwaitListing by (simp add: runFullIndex_from_def)
    moreover have "step env ext (s, [t]) (s', [AtLoop files])"
      using first Some AwaitListing by simp
    ultimately show ?thesis
      using loop_steps [of env ext s' files] by (simp add: step_single)
  qed
next
  case (AtLoop files)
  then show ?thesis by (simp add: loop_steps del: run_task.simps)
next
  case (AwaitExtraction rel result files)
  have "step env ext (s, [] @ AwaitExtraction rel result files # [])
        (indexFile_settle rel result s, [] @ AtLoop files # [])"
    by (rule step.extracted)
  then have "step env ext (s, [t]) (indexFile_settle rel result s, [AtLoop files])"
    using AwaitExtraction by simp
  moreover have "run_task env ext t s = run_task env ext (AtLoop files) (indexFile_settle rel result s)"
    using AwaitExtraction by simp
  ultimately show ?thesis
    using loop_steps [of env ext "indexFile_settle rel result s" files]
    by (simp add: step_single del: run_task.simps)
qed

lemma runFullIndex_steps: "(step env ext)\<^sup>*\<^sup>* (s, []) (runFullIndex env ext s, [])"
proof -
  obtain s' r where e: "runFullIndex_enter s = (s', r)"
    by (cases "runFullIndex_enter s")
  have first: "step env ext (s, [])
      (s', [] @ (case r of None \<Rightarrow> [] | Some root \<Rightarrow> [AwaitListing root]))"
    by (rule step.request [OF e])
  show ?thesis
  proof (cases r)
    case None
    then have "runFullIndex env ext s = s'"
      using e by (simp add: runFullIndex_def)
    moreover have "step env ext (s, []) (s', [])"
      using first None by simp
    ultimately show ?thesis by auto
  next
    case (Some root)
    then have "runFullIndex env ext s = run_task env ext (AwaitListing root) s'"
      using e by (simp add: runFullIndex_def)
    moreover have "step env ext (s, []) (s', [AwaitListing root])"
      using first Some by simp
    ultimately show ?thesis
      using task_steps [of env ext s' "AwaitListing root"]
      by (simp add: converse_rtranclp_into_rtranclp del: run_task.simps)
  qed
qed

lemma ex_started_reachable: "reachable ex_env ex_extract (ex_started, [AwaitListing ''/p''])"
proof -
  have idle: "reachable ex_env ex_extract (ex_ready, [])"
    by (rule reachable.idle) (simp add: ex_ready_def initial_state_def)
  have e: "runFullIndex_enter ex_ready = (ex_started, Some ''/p'')"
    by (simp add: ex_started_def runFullIndex_enter_def truthyRoot_def ex_ready_def
        initial_state_def)
  have "step ex_env ex_extract (ex_ready, [])
      (ex_started, [] @ (case Some ''/p'' of None \<Rightarrow> [] | Some root \<Rightarrow> [AwaitListing root]))"
    by (rule step.request [OF e])
  then have "step ex_env ex_extract (ex_ready, []) (ex_started, [AwaitListing ''/p''])"
    by simp
  with idle show ?thesis by (rule reachable.after_step)
qed

subsection \<open>The order of the entries\<close>

lemma entries_fold_addEntry:
  "entries_of (fold addEntry ds m) n =
     entries_of m n @
     firstByStart (filter (\<lambda>d. name d = n \<and> entry_key d \<notin> entry_key ` set (entries_of m n)) ds)"
proof (induction ds arbitrary: m)
  case Nil
  then show ?case by simp
next
  case (Cons d ds)
  let ?K = "entry_key ` set (entries_of m n)"
  show ?case
  proof (cases "name d = n \<and> entry_key d \<notin> ?K")
    case False
    then have same: "entries_of (addEntry d m) n = entries_of m n"
      by (auto simp: entries_of_addEntry)
    have skip: "filter (\<lambda>x. name x = n \<and> entry_key x \<notin> ?K) (d # ds)
        = filter (\<lambda>x. name x = n \<and> entry_key x \<notin> ?K) ds"
      using False by auto
    show ?thesis
      unfolding skip using Cons.IH [of "addEntry d m"] by (simp add: same)
  next
    case True
    then have e1: "entries_of (addEntry d m) n = entries_of m n @ [d]"
      by (simp add: entries_of_addEntry)
    have f: "filter (\<lambda>x. name x = n \<and> entry_key x \<notin> entry_key ` set (entries_of m n @ [d])) ds
        = filter (\<lambda>e. entry_key e \<noteq> entry_key d)
            (filter (\<lambda>x. name x = n \<and> entry_key x \<notin> ?K) ds)"
      by (auto intro: filter_cong)
    have ih: "entries_of (fold addEntry ds (addEntry d m)) n =
        (entries_of m n @ [d]) @ firstByStart (filter (\<lambda>e. entry_key e \<noteq> entry_key d)
            (filter (\<lambda>x. name x = n \<and> entry_key x \<notin> ?K) ds))"
      using Cons.IH [of "addEntry d m"] unfolding e1 f .
    have hd: "firstByStart (filter (\<lambda>x. name x = n \<and> entry_key x \<notin> ?K) (d # ds)) =
        d # firstByStart (filter (\<lambda>e. entry_key e \<noteq> entry_key d)
            (filter (\<lambda>x. name x = n \<and> entry_key x \<notin> ?K) ds))"
      using True by simp
    show ?thesis
      unfolding hd using ih by simp
  qed
qed

lemma entries_replaced:
  assumes "\<forall>e \<in> set (entries_of m n). file_of e \<noteq> rel"
    and "\<forall>d \<in> set ds. file_of d = rel"
  shows "entries_of (fold addEntry ds (removeFromBuckets rel m)) n =
           entries_of m n @ firstByStart (filter (\<lambda>d. name d = n) ds)"
proof -
  have same: "entries_of (removeFromBuckets rel m) n = entries_of m n"
    using assms(1) by (simp add: entries_of_removeFromBuckets)
  have "entry_key d \<notin> entry_key ` set (entries_of m n)" if "d \<in> set ds" for d
  proof
    assume "entry_key d \<in> entry_key ` set (entries_of m n)"
    then obtain e where e: "e \<in> set (entries_of m n)" "entry_key d = entry_key e"
      by auto
    then have "file_of e = file_of d"
      by (simp add: entry_key_def)
    with assms e(1) that show False by auto
  qed
  then have "filter (\<lambda>d. name d = n \<and> entry_key d \<notin> entry_key ` set (entries_of m n)) ds
      = filter (\<lambda>d. name d = n) ds"
    by (auto intro: filter_cong)
  then show ?thesis
    by (simp add: entries_fold_addEntry same)
qed

lemma set_firstByStart: "set (firstByStart xs) \<subseteq> set xs"
proof (induction xs rule: firstByStart.induct)
  case 1
  then show ?case by simp
next
  case (2 d ds)
  then show ?case by auto
qed

lemma inFileOrder_Nil [simp]: "inFileOrder entriesOf [] n = []"
  by (simp add: inFileOrder_def)

lemma inFileOrder_Cons:
  "inFileOrder entriesOf (f # fs) n =
     firstByStart (filter (\<lambda>d. name d = n) (entriesOf f)) @ inFileOrder entriesOf fs n"
  by (simp add: inFileOrder_def)

lemma holds_none_of_empty [simp]: "holds_none_of rel files Map.empty"
  by (simp add: holds_none_of_def entries_of_def)

lemma holds_none_of_replaced:
  assumes "holds_none_of rel (f # fs) m" and "\<forall>d \<in> set ds. file_of d = rel f"
    and "rel f \<notin> rel ` set fs"
  shows "holds_none_of rel fs (fold addEntry ds (removeFromBuckets (rel f) m))"
  unfolding holds_none_of_def
proof (intro allI ballI)
  fix k e
  assume e: "e \<in> set (entries_of (fold addEntry ds (removeFromBuckets (rel f) m)) k)"
  have old: "\<forall>e \<in> set (entries_of m k). file_of e \<noteq> rel f"
    using assms(1) by (auto simp: holds_none_of_def)
  from e have "e \<in> set (entries_of m k) \<or> e \<in> set (firstByStart (filter (\<lambda>d. name d = k) ds))"
    by (simp add: entries_replaced [OF old assms(2)])
  then show "file_of e \<notin> rel ` set fs"
  proof
    assume "e \<in> set (entries_of m k)"
    with assms(1) show ?thesis by (auto simp: holds_none_of_def)
  next
    assume "e \<in> set (firstByStart (filter (\<lambda>d. name d = k) ds))"
    then have "e \<in> set ds"
      using set_firstByStart by fastforce
    with assms(2,3) show ?thesis by auto
  qed
qed

lemma indexFiles_in_order:
  assumes "truthyRoot s = Some root"
    and "files_own_entries env ext root files"
    and "distinct (map (path_relative env root) files)"
    and "holds_none_of (path_relative env root) files (definitions s)"
    and "holds_none_of (path_relative env root) files (references s)"
  shows "entries_of (definitions (indexFiles env ext files s)) n =
           entries_of (definitions s) n @ inFileOrder (definitionsOf ext root) files n
       \<and> entries_of (references (indexFiles env ext files s)) n =
           entries_of (references s) n @ inFileOrder (referencesOf ext root) files n"
  using assms
proof (induction files arbitrary: s)
  case Nil
  then show ?case by simp
next
  case (Cons f fs)
  let ?rel = "path_relative env root"
  let ?s1 = "indexFile env ext s f"
  have own_f: "\<forall>d \<in> set (definitionsOf ext root f). file_of d = ?rel f"
    "\<forall>r \<in> set (referencesOf ext root f). file_of r = ?rel f"
    using Cons.prems(2) by (simp_all add: files_own_entries_def)
  have own_fs: "files_own_entries env ext root fs"
    using Cons.prems(2) by (simp add: files_own_entries_def)
  have fresh: "?rel f \<notin> ?rel ` set fs" and dist: "distinct (map ?rel fs)"
    using Cons.prems(3) by simp_all
  have d1: "definitions ?s1 =
      fold addEntry (definitionsOf ext root f) (removeFromBuckets (?rel f) (definitions s))"
    by (simp add: indexFile_rooted [OF Cons.prems(1)] settle_definitions)
  have r1: "references ?s1 =
      fold addEntry (referencesOf ext root f) (removeFromBuckets (?rel f) (references s))"
    by (simp add: indexFile_rooted [OF Cons.prems(1)] settle_references)
  have old_d: "\<forall>e \<in> set (entries_of (definitions s) n). file_of e \<noteq> ?rel f"
    using Cons.prems(4) by (auto simp: holds_none_of_def)
  have old_r: "\<forall>e \<in> set (entries_of (references s) n). file_of e \<noteq> ?rel f"
    using Cons.prems(5) by (auto simp: holds_none_of_def)
  have e_d: "entries_of (definitions ?s1) n = entries_of (definitions s) n
      @ firstByStart (filter (\<lambda>d. name d = n) (definitionsOf ext root f))"
    unfolding d1 by (rule entries_replaced [OF old_d own_f(1)])
  have e_r: "entries_of (references ?s1) n = entries_of (references s) n
      @ firstByStart (filter (\<lambda>d. name d = n) (referencesOf ext root f))"
    unfolding r1 by (rule entries_replaced [OF old_r own_f(2)])
  have n_d: "holds_none_of ?rel fs (definitions ?s1)"
    unfolding d1 by (rule holds_none_of_replaced [OF Cons.prems(4) own_f(1) fresh])
  have n_r: "holds_none_of ?rel fs (references ?s1)"
    unfolding r1 by (rule holds_none_of_replaced [OF Cons.prems(5) own_f(2) fresh])
  have root1: "truthyRoot ?s1 = Some root"
    using Cons.prems(1) by simp
  show ?case
    using Cons.IH [OF root1 own_fs dist n_d n_r]
    by (simp add: indexFiles_Cons e_d e_r inFileOrder_Cons)
qed

lemma indexFile_appends_definitions:
  assumes "truthyRoot s = Some root"
  shows "entries_of (definitions (indexFile env ext s f)) n =
           filter (\<lambda>d. file_of d \<noteq> path_relative env root f) (entries_of (definitions s) n)
           @ firstByStart (filter (\<lambda>d. name d = n \<and> entry_key d \<notin> entry_key `
               set (filter (\<lambda>d. file_of d \<noteq> path_relative env root f)
                      (entries_of (definitions s) n)))
               (definitionsOf ext root f))"
  by (simp add: indexFile_rooted [OF assms] settle_definitions entries_fold_addEntry
      entries_of_removeFromBuckets)

lemma indexFile_appends_references:
  assumes "truthyRoot s = Some root"
  shows "entries_of (references (indexFile env ext s f)) n =
           filter (\<lambda>d. file_of d \<noteq> path_relative env root f) (entries_of (references s) n)
           @ firstByStart (filter (\<lambda>d. name d = n \<and> entry_key d \<notin> entry_key `
               set (filter (\<lambda>d. file_of d \<noteq> path_relative env root f)
                      (entries_of (references s) n)))
               (referencesOf ext root f))"
  by (simp add: indexFile_rooted [OF assms] settle_references entries_fold_addEntry
      entries_of_removeFromBuckets)

subsection \<open>The entries that \<open>parseFile\<close> returns\<close>

lemma acc_owned_empty: "acc_owned rel empty_acc"
  by (simp add: acc_owned_def empty_acc_def)

lemma acc_owned_push:
  "acc_owned rel acc \<Longrightarrow> acc_owned rel (pushDefinition k rel src nd acc)"
  by (simp add: acc_owned_def pushDefinition_def Let_def)

lemma acc_owned_definition:
  "acc_owned rel acc \<Longrightarrow> acc_owned rel (addDefinitionMatch k rel src m acc)"
  by (auto simp: addDefinitionMatch_def acc_owned_push split: option.splits)

lemma acc_owned_reference:
  "acc_owned rel acc \<Longrightarrow> acc_owned rel (addReferenceMatch rel src m acc)"
  by (auto simp: addReferenceMatch_def acc_owned_def Let_def split: option.splits)

lemma acc_owned_fold:
  "(\<And>x a. acc_owned rel a \<Longrightarrow> acc_owned rel (f x a)) \<Longrightarrow> acc_owned rel acc \<Longrightarrow>
   acc_owned rel (fold f xs acc)"
  by (induction xs arbitrary: acc) simp_all

lemma acc_owned_query:
  "acc_owned rel acc \<Longrightarrow> acc_owned rel (runDefinitionQuery env rel src tree kq acc)"
  by (auto simp: runDefinitionQuery_def acc_owned_fold acc_owned_definition split: sum.splits)

lemma acc_owned_try:
  "parseFile_try env filePath rel = Inr acc \<Longrightarrow> acc_owned rel acc"
  by (auto simp: parseFile_try_def Let_def acc_owned_fold acc_owned_query acc_owned_reference
      acc_owned_empty split: sum.splits if_splits)

lemma parseFile_own_entries:
  "files_own_entries env (parseFile env) root files"
proof -
  have "acc_owned (path_relative env root f)
      (case parseFile_try env f (path_relative env root f) of
         Inr acc \<Rightarrow> acc | Inl error \<Rightarrow> empty_acc)" for f
    by (cases "parseFile_try env f (path_relative env root f)")
      (simp_all add: acc_owned_empty acc_owned_try)
  then show ?thesis
    by (simp add: files_own_entries_def definitionsOf_def referencesOf_def parseFile_def
        Let_def acc_owned_def)
qed

section \<open>The claims\<close>

text \<open>
  Claim C1, as the code has it. When the file listing fails during a rebuild that has
  started (the root is set and no rebuild is running), the rebuild is given up: no file
  is indexed, \<open>isIndexing\<close> is false again and the failure is printed. The index is
  not what it was before: both maps and the set of indexed files have been cleared
  before the listing, and they stay empty.
\<close>

theorem enumeration_failure_clears:
  assumes "truthyRoot s = Some root" and "\<not> isIndexing s" and "glob env root = Inl e"
  shows "runFullIndex env ext s =
           s\<lparr>definitions := Map.empty, references := Map.empty, filesIndexed := {},
             isIndexing := False,
             console := console s @ [LogStartingFullIndex root, ErrorFindingFiles e]\<rparr>"
  using assms
  by (simp add: runFullIndex_started runFullIndex_from_def runFullIndex_listed_def say_def)

theorem enumeration_failure_clears_witness:
  "runFullIndex ex_env_unlisted ex_extract ex_indexed =
     ex_indexed\<lparr>definitions := Map.empty, references := Map.empty, filesIndexed := {},
       isIndexing := False,
       console := [LogStartingFullIndex ''/p'', ErrorFindingFiles (JsError ''EMFILE'')]\<rparr>"
  using enumeration_failure_clears [of ex_indexed "''/p''" ex_env_unlisted "JsError ''EMFILE''" ex_extract]
  by (simp add: truthyRoot_def ex_indexed_def ex_env_unlisted_def ex_env_def)

text \<open>
  The claim as the specification states it, that the previous index is left untouched,
  fails: in the example the entries of \<open>A.cls\<close> are gone after the failed listing.
\<close>

theorem enumeration_failure_counterexample:
  "truthyRoot ex_indexed = Some ''/p'' \<and> \<not> isIndexing ex_indexed
   \<and> glob ex_env_unlisted ''/p'' = Inl (JsError ''EMFILE'')
   \<and> definitions (runFullIndex ex_env_unlisted ex_extract ex_indexed) ''Foo''
        \<noteq> definitions ex_indexed ''Foo''
   \<and> references (runFullIndex ex_env_unlisted ex_extract ex_indexed) ''Bar''
        \<noteq> references ex_indexed ''Bar''
   \<and> filesIndexed (runFullIndex ex_env_unlisted ex_extract ex_indexed)
        \<noteq> filesIndexed ex_indexed"
  by (simp add: runFullIndex_def runFullIndex_enter_def runFullIndex_from_def
      runFullIndex_listed_def truthyRoot_def ex_indexed_def ex_env_unlisted_def ex_env_def
      say_def)

text \<open>
  Claim C2, as the code has it. After a rebuild that has started and whose listing
  gives \<open>files\<close>, the set of indexed files is the set of the relative paths of \<open>files\<close>
  minus the relative paths of the files for which the extractor rejected. (Two listed
  paths with the same relative path name the same file, so the extractor has the same
  outcome for both: this is the last hypothesis.) A file that cannot be read or parsed
  is not such a file: \<open>parseFile\<close> catches the error and returns two empty lists, so
  with \<open>parseFile\<close> as the extractor every listed file is in the set.
\<close>

theorem indexed_files_after_rebuild:
  assumes "truthyRoot s = Some root" and "\<not> isIndexing s" and "glob env root = Inr files"
    and "\<forall>f \<in> set files. \<forall>g \<in> set files.
           path_relative env root f = path_relative env root g \<longrightarrow>
           (extractionFailed ext root f \<longleftrightarrow> extractionFailed ext root g)"
  shows "filesIndexed (runFullIndex env ext s) =
           path_relative env root ` set files
           - path_relative env root ` set (filter (extractionFailed ext root) files)
       \<and> filesIndexed (runFullIndex env (parseFile penv) s) = path_relative env root ` set files"
proof -
  have none: "filter (extractionFailed (parseFile penv) root) files = []"
    by (simp add: parseFile_succeeds)
  have "filesIndexed (runFullIndex env (parseFile penv) s) =
           path_relative env root ` set files
           - path_relative env root ` set (filter (extractionFailed (parseFile penv) root) files)"
    by (rule filesIndexed_runFullIndex [OF assms(1,2,3)]) (simp add: parseFile_succeeds)
  then have "filesIndexed (runFullIndex env (parseFile penv) s) = path_relative env root ` set files"
    unfolding none by simp
  then show ?thesis
    using filesIndexed_runFullIndex [OF assms] by simp
qed

theorem indexed_files_after_rebuild_witness:
  "filesIndexed (runFullIndex ex_env ex_extract ex_ready) = {''A.cls'', ''C.cls''}"
proof -
  have root: "truthyRoot ex_ready = Some ''/p''"
    by (simp add: truthyRoot_def ex_ready_def initial_state_def)
  have idle: "\<not> isIndexing ex_ready"
    by (simp add: ex_ready_def initial_state_def)
  have files: "glob ex_env ''/p'' = Inr [''/p/A.cls'', ''/p/B.cls'', ''/p/C.cls'']"
    by (simp add: ex_env_def)
  have rel: "path_relative ex_env = posix_relative"
    by (simp add: ex_env_def)
  have same: "\<forall>f \<in> set [''/p/A.cls'', ''/p/B.cls'', ''/p/C.cls''].
           \<forall>g \<in> set [''/p/A.cls'', ''/p/B.cls'', ''/p/C.cls''].
           path_relative ex_env ''/p'' f = path_relative ex_env ''/p'' g \<longrightarrow>
           (extractionFailed ex_extract ''/p'' f \<longleftrightarrow> extractionFailed ex_extract ''/p'' g)"
    by (simp add: rel rel_A rel_B rel_C extractionFailed_def ex_extract_def)
  have failed: "filter (extractionFailed ex_extract ''/p'')
           [''/p/A.cls'', ''/p/B.cls'', ''/p/C.cls''] = [''/p/B.cls'']"
    by (simp add: extractionFailed_def ex_extract_def)
  have "filesIndexed (runFullIndex ex_env ex_extract ex_ready) =
      path_relative ex_env ''/p'' ` set [''/p/A.cls'', ''/p/B.cls'', ''/p/C.cls'']
      - path_relative ex_env ''/p'' ` set (filter (extractionFailed ex_extract ''/p'')
          [''/p/A.cls'', ''/p/B.cls'', ''/p/C.cls''])"
    using indexed_files_after_rebuild [OF root idle files same] by blast
  then show ?thesis
    unfolding failed by (auto simp: rel rel_A rel_B rel_C)
qed

text \<open>
  The claim as the specification states it, that a file whose extraction failed is not
  in the set, fails with the extractor of the code: \<open>B.cls\<close> cannot be read, the \<open>try\<close>
  block of \<open>parseFile\<close> throws, and \<open>B.cls\<close> is an indexed file after the rebuild.
\<close>

theorem indexed_files_counterexample:
  "glob ex_parser_env ''/p'' = Inr [''/p/A.cls'', ''/p/B.cls'']
   \<and> readFile ex_parser_env ''/p/B.cls'' = Inl (JsError ''ENOENT'')
   \<and> parseFile_try ex_parser_env ''/p/B.cls'' ''B.cls'' = Inl (JsError ''ENOENT'')
   \<and> filesIndexed (runFullIndex ex_parser_env (parseFile ex_parser_env) ex_ready)
        = {''A.cls'', ''B.cls''}"
proof -
  have root: "truthyRoot ex_ready = Some ''/p''"
    by (simp add: truthyRoot_def ex_ready_def initial_state_def)
  have idle: "\<not> isIndexing ex_ready"
    by (simp add: ex_ready_def initial_state_def)
  have files: "glob ex_parser_env ''/p'' = Inr [''/p/A.cls'', ''/p/B.cls'']"
    by (simp add: ex_parser_env_def)
  have unread: "readFile ex_parser_env ''/p/B.cls'' = Inl (JsError ''ENOENT'')"
    by (simp add: ex_parser_env_def)
  have thrown: "parseFile_try ex_parser_env ''/p/B.cls'' ''B.cls'' = Inl (JsError ''ENOENT'')"
    by (simp add: parseFile_try_def unread)
  have rel: "path_relative ex_parser_env = posix_relative"
    by (simp add: ex_parser_env_def)
  have "filesIndexed (runFullIndex ex_parser_env (parseFile ex_parser_env) ex_ready) =
      path_relative ex_parser_env ''/p'' ` set [''/p/A.cls'', ''/p/B.cls'']
      - path_relative ex_parser_env ''/p'' ` set (filter
          (extractionFailed (parseFile ex_parser_env) ''/p'') [''/p/A.cls'', ''/p/B.cls''])"
    by (rule filesIndexed_runFullIndex [OF root idle files]) (simp add: parseFile_succeeds)
  then have "filesIndexed (runFullIndex ex_parser_env (parseFile ex_parser_env) ex_ready)
      = {''A.cls'', ''B.cls''}"
    by (simp add: parseFile_succeeds rel rel_A rel_B)
  with files unread thrown show ?thesis by blast
qed

text \<open>
  Claim C3, as the code has it. \<open>indexFile\<close> first removes every stored definition and
  reference of the file (no entry of the file and no empty bucket is left), and only
  then adds what the extractor returns. So after \<open>indexFile\<close> every entry with this
  file in the definitions is one of the new definitions, and every entry with this file
  in the references is one of the new references: a file with no definitions leaves no
  entry in the definitions, and a file with no references leaves none in the references.
\<close>

theorem indexFile_no_residue:
  assumes "truthyRoot s = Some root"
  shows "no_entry_of (path_relative env root p)
           (definitions (removeDataForFile (path_relative env root p) s))
       \<and> no_entry_of (path_relative env root p)
           (references (removeDataForFile (path_relative env root p) s))
       \<and> no_empty_bucket (definitions (removeDataForFile (path_relative env root p) s))
       \<and> no_empty_bucket (references (removeDataForFile (path_relative env root p) s))
       \<and> indexFile env ext s p =
           indexFile_settle (path_relative env root p) (ext p root)
             (removeDataForFile (path_relative env root p) s)
       \<and> (\<forall>k. \<forall>e \<in> set (entries_of (definitions (indexFile env ext s p)) k).
             file_of e = path_relative env root p \<longrightarrow> e \<in> set (definitionsOf ext root p))
       \<and> (\<forall>k. \<forall>e \<in> set (entries_of (references (indexFile env ext s p)) k).
             file_of e = path_relative env root p \<longrightarrow> e \<in> set (referencesOf ext root p))
       \<and> (definitionsOf ext root p = [] \<longrightarrow>
             no_entry_of (path_relative env root p) (definitions (indexFile env ext s p)))
       \<and> (referencesOf ext root p = [] \<longrightarrow>
             no_entry_of (path_relative env root p) (references (indexFile env ext s p)))"
proof -
  let ?rel = "path_relative env root p"
  have d: "\<forall>k. \<forall>e \<in> set (entries_of (definitions (indexFile env ext s p)) k).
             file_of e = ?rel \<longrightarrow> e \<in> set (definitionsOf ext root p)"
    using fresh_entries_definitions [OF assms] by blast
  have r: "\<forall>k. \<forall>e \<in> set (entries_of (references (indexFile env ext s p)) k).
             file_of e = ?rel \<longrightarrow> e \<in> set (referencesOf ext root p)"
    using fresh_entries_references [OF assms] by blast
  have d0: "definitionsOf ext root p = [] \<longrightarrow>
             no_entry_of ?rel (definitions (indexFile env ext s p))"
  proof
    assume "definitionsOf ext root p = []"
    with d show "no_entry_of ?rel (definitions (indexFile env ext s p))"
      unfolding no_entry_of_entries by auto
  qed
  have r0: "referencesOf ext root p = [] \<longrightarrow>
             no_entry_of ?rel (references (indexFile env ext s p))"
  proof
    assume "referencesOf ext root p = []"
    with r show "no_entry_of ?rel (references (indexFile env ext s p))"
      unfolding no_entry_of_entries by auto
  qed
  show ?thesis
    using d r d0 r0 indexFile_rooted [OF assms, of env ext p]
    by (simp add: no_entry_of_remove no_empty_bucket_remove)
qed

theorem indexFile_no_residue_witness:
  "no_entry_of ''A.cls'' (definitions (indexFile ex_env ex_nothing ex_indexed ''/p/A.cls''))
   \<and> no_entry_of ''A.cls'' (references (indexFile ex_env ex_nothing ex_indexed ''/p/A.cls''))"
proof -
  have d: "definitionsOf ex_nothing ''/p'' ''/p/A.cls'' = []"
    by (simp add: definitionsOf_def ex_nothing_def)
  have r: "referencesOf ex_nothing ''/p'' ''/p/A.cls'' = []"
    by (simp add: referencesOf_def ex_nothing_def)
  have rel: "path_relative ex_env ''/p'' ''/p/A.cls'' = ''A.cls''"
    by (simp add: ex_env_relative rel_A)
  show ?thesis
    using indexFile_no_residue [OF ex_indexed_root, of ex_env "''/p/A.cls''" ex_nothing]
    unfolding rel using d r by blast
qed

text \<open>
  The claim as the specification states it, that a file with no definitions leaves no
  entry in either map, fails for a file that has references: the script
  \<open>hello.apex\<close> has no definition and one reference, and after it is indexed and
  indexed again the references hold that entry of the file.
\<close>

theorem no_residue_counterexample:
  "definitionsOf ex_script_extract ''/p'' ''/p/hello.apex'' = []
   \<and> path_relative ex_env ''/p'' ''/p/hello.apex'' = ''hello.apex''
   \<and> references (indexFile ex_env ex_script_extract
         (indexFile ex_env ex_script_extract ex_indexed ''/p/hello.apex'') ''/p/hello.apex'')
         ''debug'' = Some [debugInScript]
   \<and> file_of debugInScript = ''hello.apex''"
  by (simp add: indexFile_def indexFile_begin_def truthyRoot_def Let_def
      ex_env_relative rel_hello definitionsOf_def
      ex_script_extract_def indexFile_settle_def removeDataForFile_def removeFromBuckets_def
      addEntry_def ex_indexed_def debugInScript_def barInA_def)

text \<open>
  Claim C4. The initial state has no two entries with the same file and start in a
  bucket, and from a state that has none \<open>indexFile\<close>, \<open>runFullIndex\<close> and
  \<open>handleFileSave\<close> give such a state again. Adding an entry and then an entry with
  the same name, file and start is the same as adding the first alone, and the bucket
  then holds exactly one entry with that file and start.
\<close>

theorem buckets_stay_unique:
  assumes "index_unique s"
  shows "index_unique initial_state
       \<and> index_unique (indexFile env ext s p)
       \<and> index_unique (runFullIndex env ext s)
       \<and> index_unique (handleFileSave env ext s uri)
       \<and> (name d' = name d \<and> entry_key d' = entry_key d \<longrightarrow>
            addEntry d' (addEntry d (definitions s)) = addEntry d (definitions s)
            \<and> length (filter (\<lambda>e. entry_key e = entry_key d)
                 (entries_of (addEntry d' (addEntry d (definitions s))) (name d))) = 1)
       \<and> (name r' = name r \<and> entry_key r' = entry_key r \<longrightarrow>
            addEntry r' (addEntry r (references s)) = addEntry r (references s)
            \<and> length (filter (\<lambda>e. entry_key e = entry_key r)
                 (entries_of (addEntry r' (addEntry r (references s))) (name r))) = 1)"
proof -
  have ud: "unique_buckets (definitions s)" and ur: "unique_buckets (references s)"
    using assms by (simp_all add: index_unique_def)
  show ?thesis
    using index_unique_initial index_unique_indexFile [OF assms, of env ext p]
      index_unique_runFullIndex [OF assms, of env ext]
      index_unique_handleFileSave [OF assms, of env ext uri]
      addEntry_one_stored [OF ud, of d] addEntry_one_stored [OF ur, of r]
    by (simp add: addEntry_collision)
qed

theorem buckets_stay_unique_witness:
  "index_unique ex_indexed
   \<and> index_unique (runFullIndex ex_env ex_extract ex_indexed)
   \<and> index_unique (indexFile ex_env ex_extract ex_indexed ''/p/A.cls'')
   \<and> entry_key fooAgain = entry_key fooInA \<and> fooAgain \<noteq> fooInA
   \<and> length (filter (\<lambda>e. entry_key e = entry_key fooInA)
        (entries_of (addEntry fooAgain (addEntry fooInA (definitions ex_indexed))) ''Foo'')) = 1
   \<and> addEntry barInA (addEntry barInA (references ex_indexed))
        = addEntry barInA (references ex_indexed)"
  using buckets_stay_unique [OF ex_indexed_unique, of ex_env ex_extract "''/p/A.cls''" _
       fooAgain fooInA barInA barInA]
    buckets_stay_unique [OF ex_indexed_unique, of ex_env ex_extract]
  by (simp add: ex_indexed_unique entry_key_def fooAgain_def fooInA_def)

text \<open>
  Claim C5. In every configuration that the service reaches from one with no rebuild
  running, whatever the order of the requests and of the steps of the rebuild, at
  most one rebuild is in progress, and one is in progress exactly when \<open>isIndexing\<close>
  is true. A rebuild requested then returns at once: it prints the warning, starts no
  task (the tasks are as before) and leaves every field but the console as it was; and
  the rebuild in progress ends with the same index whether the request came or not.
  The last line says that the steps are those of the method: \<open>runFullIndex\<close> run alone
  is a run of the steps.
\<close>

theorem rebuild_exclusive:
  assumes "reachable env ext (s, ts)"
  shows "length ts \<le> 1
       \<and> (ts \<noteq> [] \<longleftrightarrow> isIndexing s)
       \<and> (isIndexing s \<longrightarrow>
            runFullIndex_enter s = (say WarnAlreadyIndexing s, None)
            \<and> runFullIndex env ext s = say WarnAlreadyIndexing s
            \<and> step env ext (s, ts) (say WarnAlreadyIndexing s, ts)
            \<and> same_index (say WarnAlreadyIndexing s) s
            \<and> (\<forall>t \<in> set ts. same_index (run_task env ext t (say WarnAlreadyIndexing s))
                  (run_task env ext t s)))
       \<and> (step env ext)\<^sup>*\<^sup>* (s0, []) (runFullIndex env ext s0, [])"
proof -
  have inv: "one_rebuild (s, ts)"
    by (rule reachable_one_rebuild [OF assms])
  then have len: "length ts \<le> 1" and busy: "ts \<noteq> [] \<longleftrightarrow> isIndexing s"
    by (auto simp: one_rebuild_def)
  have rej: "runFullIndex_enter s = (say WarnAlreadyIndexing s, None)" if "isIndexing s"
    using inv that by (auto simp: one_rebuild_def enter_rejected)
  have run: "runFullIndex env ext s = say WarnAlreadyIndexing s" if "isIndexing s"
    by (simp add: runFullIndex_def rej [OF that])
  have st: "step env ext (s, ts) (say WarnAlreadyIndexing s, ts)" if "isIndexing s"
    using step.request [OF rej [OF that], of env ext ts] by simp
  have same: "same_index (run_task env ext t (say WarnAlreadyIndexing s)) (run_task env ext t s)"
    for t
    by (rule same_index_run_task) simp
  show ?thesis
    using len busy rej run st same runFullIndex_steps [of env ext s0] by simp
qed

theorem rebuild_exclusive_witness:
  "reachable ex_env ex_extract (ex_started, [AwaitListing ''/p''])
   \<and> isIndexing ex_started
   \<and> runFullIndex ex_env ex_extract ex_started = say WarnAlreadyIndexing ex_started
   \<and> same_index
        (run_task ex_env ex_extract (AwaitListing ''/p'') (say WarnAlreadyIndexing ex_started))
        (run_task ex_env ex_extract (AwaitListing ''/p'') ex_started)"
  using rebuild_exclusive [OF ex_started_reachable] ex_started_reachable
  by simp

text \<open>
  Claim C6. \<open>findDefinitions\<close> and \<open>findReferences\<close> return a list for every state,
  symbol and runtime: a call that throws while a location is built is caught and the
  entry is skipped, so that a runtime in which \<open>path.resolve\<close> always throws gives
  the empty list. A symbol with no bucket gives the empty list, and so does every
  symbol while the root is not set.
\<close>

theorem lookups_total:
  "(definitions s symbol = None \<longrightarrow> findDefinitions env s symbol uri = [])
   \<and> (references s symbol = None \<longrightarrow> findReferences env s symbol uri = [])
   \<and> (projectRoot s = None \<longrightarrow>
        findDefinitions env s symbol uri = [] \<and> findReferences env s symbol uri = [])
   \<and> findDefinitions env s symbol uri =
        List.map_filter (\<lambda>d. toLspLocation env s d uri) (entries_of (definitions s) symbol)
   \<and> findReferences env s symbol uri =
        List.map_filter (\<lambda>d. toLspLocation env s d uri) (entries_of (references s) symbol)
   \<and> ((\<forall>root f. isl (path_resolve env root f)) \<longrightarrow>
        findDefinitions env s symbol uri = [] \<and> findReferences env s symbol uri = [])"
proof -
  have d: "findDefinitions env s symbol uri = []" if "definitions s symbol = None"
    using that by (simp add: findDefinitions_entries entries_of_def List.map_filter_simps)
  have r: "findReferences env s symbol uri = []" if "references s symbol = None"
    using that by (simp add: findReferences_entries entries_of_def List.map_filter_simps)
  have u: "findDefinitions env s symbol uri = [] \<and> findReferences env s symbol uri = []"
    if "projectRoot s = None"
  proof
    show "findDefinitions env s symbol uri = []"
      unfolding findDefinitions_entries
      by (rule map_filter_None) (rule toLspLocation_unrooted [OF unrooted_None [OF that]])
    show "findReferences env s symbol uri = []"
      unfolding findReferences_entries
      by (rule map_filter_None) (rule toLspLocation_unrooted [OF unrooted_None [OF that]])
  qed
  have t: "findDefinitions env s symbol uri = [] \<and> findReferences env s symbol uri = []"
    if "\<forall>root f. isl (path_resolve env root f)"
  proof
    show "findDefinitions env s symbol uri = []"
      unfolding findDefinitions_entries
      by (rule map_filter_None) (rule toLspLocation_thrown [OF that])
    show "findReferences env s symbol uri = []"
      unfolding findReferences_entries
      by (rule map_filter_None) (rule toLspLocation_thrown [OF that])
  qed
  show ?thesis
    using d r u t findDefinitions_entries [of env s symbol uri]
      findReferences_entries [of env s symbol uri]
    by blast
qed

theorem lookups_total_witness:
  "findDefinitions ex_env initial_state ''Foo'' ''file:///p'' = []
   \<and> findReferences ex_env initial_state ''Foo'' ''file:///p'' = []
   \<and> findDefinitions ex_env ex_indexed ''Missing'' ''file:///p'' = []
   \<and> findReferences ex_env ex_indexed ''Missing'' ''file:///p'' = []
   \<and> definitions ex_indexed ''Foo'' = Some [fooInA]
   \<and> findDefinitions ex_env_unresolved ex_indexed ''Foo'' ''file:///p'' = []"
proof -
  have thrown: "\<forall>root f. isl (path_resolve ex_env_unresolved root f)"
    by (simp add: ex_env_unresolved_def)
  have stored: "definitions ex_indexed ''Foo'' = Some [fooInA]"
    by (simp add: ex_indexed_def)
  have unset: "projectRoot initial_state = None"
    by (simp add: initial_state_def)
  have missing: "definitions ex_indexed ''Missing'' = None"
      "references ex_indexed ''Missing'' = None"
    by (simp_all add: ex_indexed_def)
  show ?thesis
    using lookups_total [of initial_state "''Foo''" ex_env "''file:///p''"]
      lookups_total [of ex_indexed "''Missing''" ex_env "''file:///p''"]
      lookups_total [of ex_indexed "''Foo''" ex_env_unresolved "''file:///p''"]
      thrown stored unset missing
    by blast
qed




text \<open>
  Claim C8. After a rebuild that has started and whose listing gives \<open>files\<close>, the
  entries stored under a name, and so the locations that \<open>findDefinitions\<close> and
  \<open>findReferences\<close> return for it, are in the order of insertion: file after file in
  the order of \<open>files\<close>, and for one file in the order in which the extractor returned
  them (the first entry for each file and start). The hypotheses say what the listing
  and the extractor give: no two listed files have the same relative path, and the
  entries of a file carry its relative path, as those of \<open>parseFile\<close> do (the last
  line of the theorem). Every \<open>indexFile\<close>, in a rebuild or after a save, keeps the
  stored entries of the other files in their order and puts the new entries of its
  file after them, in the order of the extractor.
\<close>

theorem lookup_in_file_order:
  assumes "truthyRoot s = Some root" and "\<not> isIndexing s" and "glob env root = Inr files"
    and "files_own_entries env ext root files"
    and "distinct (map (path_relative env root) files)"
  shows "entries_of (definitions (runFullIndex env ext s)) n =
           inFileOrder (definitionsOf ext root) files n
       \<and> entries_of (references (runFullIndex env ext s)) n =
           inFileOrder (referencesOf ext root) files n
       \<and> findDefinitions env (runFullIndex env ext s) n uri =
           List.map_filter (\<lambda>d. toLspLocation env (runFullIndex env ext s) d uri)
             (inFileOrder (definitionsOf ext root) files n)
       \<and> findReferences env (runFullIndex env ext s) n uri =
           List.map_filter (\<lambda>r. toLspLocation env (runFullIndex env ext s) r uri)
             (inFileOrder (referencesOf ext root) files n)
       \<and> entries_of (definitions (indexFile env ext s f)) n =
           filter (\<lambda>d. file_of d \<noteq> path_relative env root f) (entries_of (definitions s) n)
           @ firstByStart (filter (\<lambda>d. name d = n \<and> entry_key d \<notin> entry_key `
               set (filter (\<lambda>d. file_of d \<noteq> path_relative env root f)
                      (entries_of (definitions s) n)))
               (definitionsOf ext root f))
       \<and> entries_of (references (indexFile env ext s f)) n =
           filter (\<lambda>d. file_of d \<noteq> path_relative env root f) (entries_of (references s) n)
           @ firstByStart (filter (\<lambda>d. name d = n \<and> entry_key d \<notin> entry_key `
               set (filter (\<lambda>d. file_of d \<noteq> path_relative env root f)
                      (entries_of (references s) n)))
               (referencesOf ext root f))
       \<and> files_own_entries penv (parseFile penv) root files"
proof -
  let ?s1 = "say (LogStartingFullIndex root) (s\<lparr>isIndexing := True\<rparr>)
          \<lparr>definitions := Map.empty, references := Map.empty, filesIndexed := {}\<rparr>"
  let ?s2 = "say (LogFoundFiles (length files)) ?s1"
  have root2: "truthyRoot ?s2 = Some root"
    using assms(1) by (simp add: truthyRoot_def say_def)
  have empty2: "definitions ?s2 = Map.empty" "references ?s2 = Map.empty"
    by (simp_all add: say_def)
  have run: "runFullIndex env ext s =
      (if files = [] then (say LogNoFilesFound ?s1)\<lparr>isIndexing := False\<rparr>
       else runFullIndex_finish (indexFiles env ext files ?s2))"
    using assms(1,2,3)
    by (simp add: runFullIndex_started runFullIndex_from_def runFullIndex_listed_def)
  have ents: "entries_of (definitions (runFullIndex env ext s)) n =
           inFileOrder (definitionsOf ext root) files n
       \<and> entries_of (references (runFullIndex env ext s)) n =
           inFileOrder (referencesOf ext root) files n"
  proof (cases "files = []")
    case True
    with run show ?thesis by (simp add: entries_of_def say_def)
  next
    case False
    have "entries_of (definitions (indexFiles env ext files ?s2)) n =
           entries_of (definitions ?s2) n @ inFileOrder (definitionsOf ext root) files n
       \<and> entries_of (references (indexFiles env ext files ?s2)) n =
           entries_of (references ?s2) n @ inFileOrder (referencesOf ext root) files n"
      by (rule indexFiles_in_order [OF root2 assms(4,5)]) (simp_all add: empty2)
    with False run show ?thesis
      by (simp add: empty2 entries_of_def)
  qed
  then show ?thesis
    using indexFile_appends_definitions [OF assms(1), of env ext f n]
      indexFile_appends_references [OF assms(1), of env ext f n]
      parseFile_own_entries [of penv root files]
    by (simp add: findDefinitions_entries findReferences_entries)
qed

theorem lookup_in_file_order_witness:
  "glob ex_env ''/p'' = Inr [''/p/A.cls'', ''/p/B.cls'', ''/p/C.cls'']
   \<and> entries_of (definitions (runFullIndex ex_env ex_extract ex_ready)) ''Foo'' = [fooInA, fooInC]
   \<and> entries_of (references (runFullIndex ex_env ex_extract ex_ready)) ''Bar'' = [barInA]
   \<and> map lsp_uri (findDefinitions ex_env (runFullIndex ex_env ex_extract ex_ready) ''Foo''
        ''file:///p'') = [''file:///p/A.cls'', ''file:///p/C.cls'']"
proof -
  have root: "truthyRoot ex_ready = Some ''/p''"
    by (simp add: truthyRoot_def ex_ready_def initial_state_def)
  have idle: "\<not> isIndexing ex_ready"
    by (simp add: ex_ready_def initial_state_def)
  have files: "glob ex_env ''/p'' = Inr [''/p/A.cls'', ''/p/B.cls'', ''/p/C.cls'']"
    by (simp add: ex_env_def)
  have own: "files_own_entries ex_env ex_extract ''/p'' [''/p/A.cls'', ''/p/B.cls'', ''/p/C.cls'']"
    by (simp add: files_own_entries_def definitionsOf_def referencesOf_def ex_extract_def
        ex_env_relative rel_A rel_B rel_C fooInA_def barInA_def fooInC_def)
  have dist: "distinct (map (path_relative ex_env ''/p'') [''/p/A.cls'', ''/p/B.cls'', ''/p/C.cls''])"
    by (simp add: ex_env_relative rel_A rel_B rel_C)
  have rooted: "truthyRoot (runFullIndex ex_env ex_extract ex_ready) = Some ''/p''"
    using root idle files
    by (simp add: runFullIndex_started runFullIndex_from_def runFullIndex_listed_def
        truthyRoot_def runFullIndex_finish_def say_def ex_ready_def initial_state_def
        truthyRoot_indexFiles [unfolded truthyRoot_def])
  have order_d: "inFileOrder (definitionsOf ex_extract ''/p'')
      [''/p/A.cls'', ''/p/B.cls'', ''/p/C.cls''] ''Foo'' = [fooInA, fooInC]"
    by (simp add: inFileOrder_def definitionsOf_def ex_extract_def fooInA_def fooInC_def)
  have order_r: "inFileOrder (referencesOf ex_extract ''/p'')
      [''/p/A.cls'', ''/p/B.cls'', ''/p/C.cls''] ''Bar'' = [barInA]"
    by (simp add: inFileOrder_def referencesOf_def ex_extract_def barInA_def)
  have resolve: "path_resolve ex_env r f = Inr (r @ ''/'' @ f)" for r f
    by (simp add: ex_env_def)
  have posix: "\<not> platform_win32 ex_env"
    by (simp add: ex_env_def)
  have uris: "map lsp_uri (List.map_filter
      (\<lambda>d. toLspLocation ex_env (runFullIndex ex_env ex_extract ex_ready) d ''file:///p'')
      [fooInA, fooInC]) = [''file:///p/A.cls'', ''file:///p/C.cls'']"
    by (simp add: List.map_filter_simps toLspLocation_def rooted resolve posix
        LspLocation_create_def toLspRange_def LspRange_create_def LspPosition_create_def
        LspPosition_is_def Is_uinteger_def fooInA_def fooInC_def)
  note foo = lookup_in_file_order [OF root idle files own dist, of "''Foo''" "''file:///p''",
      unfolded order_d]
  note bar = lookup_in_file_order [OF root idle files own dist, of "''Bar''" "''file:///p''",
      unfolded order_r]
  have found: "findDefinitions ex_env (runFullIndex ex_env ex_extract ex_ready) ''Foo''
      ''file:///p'' = List.map_filter
      (\<lambda>d. toLspLocation ex_env (runFullIndex ex_env ex_extract ex_ready) d ''file:///p'')
      [fooInA, fooInC]"
    using foo by blast
  have "map lsp_uri (findDefinitions ex_env (runFullIndex ex_env ex_extract ex_ready) ''Foo''
        ''file:///p'') = [''file:///p/A.cls'', ''file:///p/C.cls'']"
    unfolding found by (rule uris)
  with files foo bar show ?thesis by blast
qed

text \<open>
  Claim C9. \<open>handleFileSave\<close> accepts a saved file when the root is a prefix of its
  path as a string and the path has a recognized suffix: it then runs \<open>indexFile\<close> on
  the path, and the relative path of the file is in the set of indexed files unless
  the extraction fails. Nothing asks that the path lies in the directory of the root.
\<close>

theorem save_accepts_by_prefix:
  assumes "truthyRoot s = Some root" and "uriToPath env uri = Some filePath"
    and "prefix root filePath" and "recognizedSuffix filePath"
  shows "handleFileSave env ext s uri =
           indexFile env ext (say (LogFileSaved (path_relative env root filePath)) s) filePath
       \<and> (\<not> extractionFailed ext root filePath \<longrightarrow>
            path_relative env root filePath \<in> filesIndexed (handleFileSave env ext s uri))"
proof -
  have ne: "filePath \<noteq> []"
    by (rule prefix_nonempty [OF assms(3) truthyRoot_nonempty [OF assms(1)]])
  have eq: "handleFileSave env ext s uri =
           indexFile env ext (say (LogFileSaved (path_relative env root filePath)) s) filePath"
    using assms ne by (simp add: handleFileSave_def)
  have root': "truthyRoot (say (LogFileSaved (path_relative env root filePath)) s) = Some root"
    using assms(1) by simp
  show ?thesis
    unfolding eq by (simp add: filesIndexed_indexFile [OF root'])
qed

text \<open>
  With the root \<open>/work/proj\<close>, the file \<open>/work/proj2/A.cls\<close> of the directory beside
  the project is accepted, and the index holds it under the path \<open>../proj2/A.cls\<close>.
\<close>

theorem save_accepts_by_prefix_witness:
  "prefix ''/work/proj'' ''/work/proj2/A.cls''
   \<and> \<not> prefix ''/work/proj/'' ''/work/proj2/A.cls''
   \<and> filesIndexed (handleFileSave ex_env ex_sibling_extract ex_work ''file:///work/proj2/A.cls'')
        = {''../proj2/A.cls''}
   \<and> definitions (handleFileSave ex_env ex_sibling_extract ex_work ''file:///work/proj2/A.cls'')
        ''Foo'' = Some [fooInSibling]"
proof -
  have root: "truthyRoot ex_work = Some ''/work/proj''"
    by (simp add: truthyRoot_def ex_work_def initial_state_def)
  have path: "uriToPath ex_env ''file:///work/proj2/A.cls'' = Some ''/work/proj2/A.cls''"
    by (simp add: uriToPath_def ex_env_def)
  have pre: "prefix ''/work/proj'' ''/work/proj2/A.cls''"
    by simp
  have suf: "recognizedSuffix ''/work/proj2/A.cls''"
    by (simp add: recognizedSuffix_def suffix_to_prefix)
  have eq: "handleFileSave ex_env ex_sibling_extract ex_work ''file:///work/proj2/A.cls'' =
      indexFile ex_env ex_sibling_extract
        (say (LogFileSaved (path_relative ex_env ''/work/proj'' ''/work/proj2/A.cls'')) ex_work)
        ''/work/proj2/A.cls''"
    using save_accepts_by_prefix [OF root path pre suf, of ex_sibling_extract] by simp
  show ?thesis
    unfolding eq
    by (simp add: indexFile_def indexFile_begin_def truthyRoot_def Let_def ex_work_def
        initial_state_def say_def ex_env_relative rel_sibling indexFile_settle_def
        ex_sibling_extract_def removeDataForFile_def removeFromBuckets_def addEntry_def
        fooInSibling_def)
qed

text \<open>
  Claim C10. \<open>parseFile\<close> never rejects: for every runtime, file and root it returns
  two lists. When its \<open>try\<close> block throws, as it does for a file that cannot be read
  or cannot be parsed, both lists are empty. So \<open>indexFile\<close> with \<open>parseFile\<close> never
  enters its \<open>catch\<close>: when the root is set, the file is added to the indexed files
  and the service prints no failure.
\<close>

theorem parseFile_total:
  "(\<exists>ds rs. parseFile env filePath root = Inr (ds, rs))
   \<and> \<not> extractionFailed (parseFile env) root filePath
   \<and> (isl (parseFile_try env filePath (path_relative env root filePath)) \<longrightarrow>
        parseFile env filePath root = Inr ([], []))
   \<and> (isl (readFile env filePath) \<longrightarrow> parseFile env filePath root = Inr ([], []))
   \<and> (\<forall>sourceCode. readFile env filePath = Inr sourceCode \<and> isl (parse env sourceCode) \<longrightarrow>
        parseFile env filePath root = Inr ([], []))
   \<and> (truthyRoot s = Some root \<longrightarrow>
        path_relative env root filePath \<in> filesIndexed (indexFile env (parseFile env) s filePath)
        \<and> console (indexFile env (parseFile env) s filePath) = console s)"
proof -
  have total: "\<exists>ds rs. parseFile env filePath root = Inr (ds, rs)"
    by (simp add: parseFile_def Let_def)
  have ok: "\<not> extractionFailed (parseFile env) root filePath"
    by (simp add: extractionFailed_def parseFile_def Let_def)
  have thrown: "parseFile env filePath root = Inr ([], [])"
    if "isl (parseFile_try env filePath (path_relative env root filePath))"
    using that by (auto simp: parseFile_def Let_def empty_acc_def isl_def)
  have unread: "isl (parseFile_try env filePath (path_relative env root filePath))"
    if "isl (readFile env filePath)"
    using that by (auto simp: parseFile_try_def isl_def)
  have indexed: "path_relative env root filePath
        \<in> filesIndexed (indexFile env (parseFile env) s filePath)
      \<and> console (indexFile env (parseFile env) s filePath) = console s"
    if "truthyRoot s = Some root"
    using ok total
    by (auto simp: filesIndexed_indexFile [OF that] indexFile_rooted [OF that]
        indexFile_settle_def)
  have unparsed: "isl (parseFile_try env filePath (path_relative env root filePath))"
    if "readFile env filePath = Inr sourceCode" and "isl (parse env sourceCode)" for sourceCode
    using that by (auto simp: parseFile_try_def isl_def)
  show ?thesis
    using total ok thrown unread unparsed indexed by blast
qed

theorem parseFile_total_witness:
  "isl (readFile ex_parser_env ''/p/B.cls'')
   \<and> parseFile ex_parser_env ''/p/B.cls'' ''/p'' = Inr ([], [])
   \<and> readFile ex_parser_env_unparsed ''/p/A.cls'' = Inr ex_source
   \<and> parseFile ex_parser_env_unparsed ''/p/A.cls'' ''/p'' = Inr ([], [])
   \<and> parseFile ex_parser_env ''/p/A.cls'' ''/p'' = Inr ([fooInA, bInA], [barInA])
   \<and> ''B.cls'' \<in> filesIndexed (indexFile ex_parser_env (parseFile ex_parser_env) ex_ready ''/p/B.cls'')
   \<and> console (indexFile ex_parser_env (parseFile ex_parser_env) ex_ready ''/p/B.cls'') = []"
proof -
  have unread: "isl (readFile ex_parser_env ''/p/B.cls'')"
    by (simp add: ex_parser_env_def)
  have root: "truthyRoot ex_ready = Some ''/p''"
    by (simp add: truthyRoot_def ex_ready_def initial_state_def)
  have rel: "path_relative ex_parser_env ''/p'' ''/p/B.cls'' = ''B.cls''"
    by (simp add: ex_parser_env_def rel_B)
  have quiet: "console ex_ready = []"
    by (simp add: ex_ready_def initial_state_def)
  have read: "readFile ex_parser_env_unparsed ''/p/A.cls'' = Inr ex_source"
    by (simp add: ex_parser_env_unparsed_def ex_parser_env_def)
  have unparsed: "isl (parse ex_parser_env_unparsed ex_source)"
    by (simp add: ex_parser_env_unparsed_def)
  have empty: "parseFile ex_parser_env_unparsed ''/p/A.cls'' ''/p'' = Inr ([], [])"
    using parseFile_total [of ex_parser_env_unparsed "''/p/A.cls''" "''/p''" ex_ready]
      read unparsed by blast
  show ?thesis
    using parseFile_total [of ex_parser_env "''/p/B.cls''" "''/p''" ex_ready] unread root
      read empty parseFile_example
    unfolding rel quiet by blast
qed

end
